theory Spec2Isabelle
  imports Complex_Main "HOL-Library.Log_Nat"
begin

section \<open>JavaScript numbers\<close>

text \<open>
  The calculator computes with JavaScript numbers: IEEE-754 binary64 values. A number is
  \<open>NaN\<close>, one of the two infinities, the negative zero, or a finite value \<open>Fin q\<close>
  whose rational \<open>q\<close> is the exact value of the double (\<open>Fin 0\<close> is the positive zero).
  Every arithmetic operation computes the exact rational result and rounds it to the
  nearest double, ties to the even significand (\<open>fround\<close>).
\<close>

datatype jsnum = NaN | PInf | NInf | NZero | Fin rat

text \<open>
  \<open>ilog b q\<close> is the integer \<open>e\<close> with \<open>b powi e \<le> q < b powi (e + 1)\<close>, for \<open>q > 0\<close>
  (\<open>powi\<close> is the power with an integer exponent).
\<close>

definition ilog :: "nat \<Rightarrow> rat \<Rightarrow> int" where
  "ilog b q =
     (let (n, d) = quotient_of q;
          k = int (floorlog b (nat n)) - int (floorlog b (nat d))
      in if of_nat b powi k \<le> q then k else k - 1)"

definition round_half_even :: "rat \<Rightarrow> int" where
  "round_half_even x =
     (let n = \<lfloor>x\<rfloor>; f = x - of_int n
      in if f < 1 / 2 then n
         else if 1 / 2 < f then n + 1
         else if even n then n else n + 1)"

text \<open>
  Rounding to binary64: 53 significant bits, least exponent of the unit in the last
  place \<open>-1074\<close> (subnormal numbers), overflow to an infinity from \<open>2 ^ 1024\<close> on.
\<close>

definition fround :: "rat \<Rightarrow> jsnum" where
  "fround q =
     (if q = 0 then Fin 0
      else
        let a = \<bar>q\<bar>;
            p = max (ilog 2 a - 52) (- 1074);
            m = of_int (round_half_even (a / 2 powi p)) * 2 powi p
        in if 2 ^ 1024 \<le> m then (if q < 0 then NInf else PInf)
           else if m = 0 then (if q < 0 then NZero else Fin 0)
           else Fin (if q < 0 then - m else m))"

text \<open>The sign bit, and the sign of a zero result.\<close>

fun is_neg :: "jsnum \<Rightarrow> bool" where
  "is_neg NaN = False"
| "is_neg PInf = False"
| "is_neg NInf = True"
| "is_neg NZero = True"
| "is_neg (Fin q) = (q < 0)"

fun is_zero :: "jsnum \<Rightarrow> bool" where
  "is_zero NZero = True"
| "is_zero (Fin q) = (q = 0)"
| "is_zero _ = False"

fun is_inf :: "jsnum \<Rightarrow> bool" where
  "is_inf PInf = True"
| "is_inf NInf = True"
| "is_inf _ = False"

text \<open>The exact value of a finite number (both zeros have the value 0).\<close>

fun val :: "jsnum \<Rightarrow> rat" where
  "val (Fin q) = q"
| "val _ = 0"

definition signed_zero :: "bool \<Rightarrow> jsnum" where
  "signed_zero neg = (if neg then NZero else Fin 0)"

definition signed_inf :: "bool \<Rightarrow> jsnum" where
  "signed_inf neg = (if neg then NInf else PInf)"

text \<open>Unary minus.\<close>

fun js_neg :: "jsnum \<Rightarrow> jsnum" where
  "js_neg NaN = NaN"
| "js_neg PInf = NInf"
| "js_neg NInf = PInf"
| "js_neg NZero = Fin 0"
| "js_neg (Fin q) = (if q = 0 then NZero else Fin (- q))"

text \<open>Addition \<open>x + y\<close>.\<close>

definition js_add :: "jsnum \<Rightarrow> jsnum \<Rightarrow> jsnum" where
  "js_add x y =
     (if x = NaN \<or> y = NaN then NaN
      else if is_inf x \<and> is_inf y then (if x = y then x else NaN)
      else if is_inf x then x
      else if is_inf y then y
      else if is_zero x \<and> is_zero y then signed_zero (is_neg x \<and> is_neg y)
      else fround (val x + val y))"

text \<open>Subtraction \<open>x - y\<close>.\<close>

definition js_sub :: "jsnum \<Rightarrow> jsnum \<Rightarrow> jsnum" where
  "js_sub x y = js_add x (js_neg y)"

text \<open>Multiplication \<open>x * y\<close>.\<close>

definition js_mul :: "jsnum \<Rightarrow> jsnum \<Rightarrow> jsnum" where
  "js_mul x y =
     (if x = NaN \<or> y = NaN then NaN
      else if is_inf x \<or> is_inf y then
        (if is_zero x \<or> is_zero y then NaN else signed_inf (is_neg x \<noteq> is_neg y))
      else if is_zero x \<or> is_zero y then signed_zero (is_neg x \<noteq> is_neg y)
      else fround (val x * val y))"

text \<open>Division \<open>x / y\<close>.\<close>

definition js_div :: "jsnum \<Rightarrow> jsnum \<Rightarrow> jsnum" where
  "js_div x y =
     (if x = NaN \<or> y = NaN then NaN
      else if is_inf x then (if is_inf y then NaN else signed_inf (is_neg x \<noteq> is_neg y))
      else if is_inf y then signed_zero (is_neg x \<noteq> is_neg y)
      else if is_zero y then (if is_zero x then NaN else signed_inf (is_neg x \<noteq> is_neg y))
      else if is_zero x then signed_zero (is_neg x \<noteq> is_neg y)
      else fround (val x / val y))"

text \<open>
  Remainder \<open>x % y\<close>: the sign follows the dividend, the quotient is truncated, and the
  result is exact.
\<close>

definition rat_trunc :: "rat \<Rightarrow> int" where
  "rat_trunc q = (if 0 \<le> q then \<lfloor>q\<rfloor> else \<lceil>q\<rceil>)"

definition js_rem :: "jsnum \<Rightarrow> jsnum \<Rightarrow> jsnum" where
  "js_rem x y =
     (if x = NaN \<or> y = NaN then NaN
      else if is_inf x \<or> is_zero y then NaN
      else if is_inf y \<or> is_zero x then x
      else
        let r = val x - val y * of_int (rat_trunc (val x / val y))
        in if r = 0 then signed_zero (is_neg x) else Fin r)"

text \<open>Comparisons: \<open>x < y\<close> and \<open>x === y\<close> (false on \<open>NaN\<close>; the two zeros are equal).\<close>

fun js_lt :: "jsnum \<Rightarrow> jsnum \<Rightarrow> bool" where
  "js_lt NaN _ = False"
| "js_lt _ NaN = False"
| "js_lt PInf _ = False"
| "js_lt _ NInf = False"
| "js_lt NInf _ = True"
| "js_lt _ PInf = True"
| "js_lt x y = (val x < val y)"

fun js_strict_eq :: "jsnum \<Rightarrow> jsnum \<Rightarrow> bool" where
  "js_strict_eq NaN _ = False"
| "js_strict_eq _ NaN = False"
| "js_strict_eq PInf y = (y = PInf)"
| "js_strict_eq NInf y = (y = NInf)"
| "js_strict_eq x PInf = False"
| "js_strict_eq x NInf = False"
| "js_strict_eq x y = (val x = val y)"

text \<open>Truthiness of a number: \<open>NaN\<close> and the zeros are falsy.\<close>

fun truthy :: "jsnum \<Rightarrow> bool" where
  "truthy NaN = False"
| "truthy NZero = False"
| "truthy (Fin q) = (q \<noteq> 0)"
| "truthy _ = True"

text \<open>\<open>Math.floor\<close>.\<close>

fun math_floor :: "jsnum \<Rightarrow> jsnum" where
  "math_floor (Fin q) = Fin (of_int \<lfloor>q\<rfloor>)"
| "math_floor x = x"

text \<open>The constants \<open>Math.PI\<close> and \<open>Math.E\<close>, as the doubles they are.\<close>

definition math_PI :: jsnum where
  "math_PI = Fin (884279719003555 / 2 ^ 48)"

definition math_E :: jsnum where
  "math_E = Fin (6121026514868073 / 2 ^ 51)"

text \<open>
  What ECMAScript leaves to the engine is a parameter: the transcendental functions of
  \<open>Math\<close>, which are implementation-approximated, and the depth of the call stack, the
  number of nested calls of a function the engine has room for.
\<close>

record mathlib =
  math_sin :: "jsnum \<Rightarrow> jsnum"
  math_cos :: "jsnum \<Rightarrow> jsnum"
  math_tan :: "jsnum \<Rightarrow> jsnum"
  math_log10 :: "jsnum \<Rightarrow> jsnum"
  math_log :: "jsnum \<Rightarrow> jsnum"
  math_sqrt :: "jsnum \<Rightarrow> jsnum"
  math_pow :: "jsnum \<Rightarrow> jsnum \<Rightarrow> jsnum"
  stack_depth :: nat

section \<open>Numbers and strings\<close>

text \<open>
  Strings are byte lists; the display holds ASCII only, and the few non-ASCII symbols of
  the expressions are written in UTF-8.
\<close>

definition digit_char :: "nat \<Rightarrow> char" where
  "digit_char d = ''0123456789'' ! d"

definition is_digit :: "char \<Rightarrow> bool" where
  "is_digit c = (c \<in> set ''0123456789'')"

definition digit_val :: "char \<Rightarrow> nat" where
  "digit_val c = length (takeWhile (\<lambda>d. d \<noteq> c) ''0123456789'')"

function to_digits :: "nat \<Rightarrow> string" where
  "to_digits n =
     (if n < 10 then [digit_char n] else to_digits (n div 10) @ [digit_char (n mod 10)])"
  by pat_completeness auto
termination
  by (relation "measure id") auto

declare to_digits.simps [simp del]

definition digits_val :: "string \<Rightarrow> nat" where
  "digits_val ds = foldl (\<lambda>a c. 10 * a + digit_val c) 0 ds"

subsection \<open>\<open>String(x)\<close>: Number::toString of ECMAScript, radix 10\<close>

text \<open>
  For a finite \<open>q > 0\<close> the digits are the integer \<open>s\<close> with the fewest digits \<open>k\<close> such
  that \<open>s * 10 ^ (n - k)\<close> rounds to \<open>q\<close>, the closest to \<open>q\<close> when several do. With \<open>k\<close>
  digits only the two neighbours of \<open>q / 10 ^ (n - k)\<close> can do.
\<close>

definition digit_candidate :: "rat \<Rightarrow> int \<Rightarrow> nat \<Rightarrow> (nat \<times> int) option" where
  "digit_candidate q n0 k =
     (let u = 10 powi (n0 - int k);
          lo = nat \<lfloor>q / u\<rfloor>;
          hi = lo + 1;
          ok_lo = (fround (of_nat lo * u) = Fin q);
          ok_hi = (fround (of_nat hi * u) = Fin q);
          d_lo = q - of_nat lo * u;
          d_hi = of_nat hi * u - q
      in if ok_lo \<and> (\<not> ok_hi \<or> d_lo < d_hi \<or> (d_lo = d_hi \<and> even lo)) then Some (lo, n0)
         else if ok_hi then (if hi = 10 ^ k then Some (10 ^ (k - 1), n0 + 1) else Some (hi, n0))
         else None)"

function shortest_digits :: "rat \<Rightarrow> int \<Rightarrow> nat \<Rightarrow> nat \<times> int" where
  "shortest_digits q n0 k =
     (case digit_candidate q n0 k of
        Some r \<Rightarrow> r
      | None \<Rightarrow>
          if 17 \<le> k then (nat \<lfloor>q / 10 powi (n0 - int k)\<rfloor>, n0)
          else shortest_digits q n0 (k + 1))"
  by pat_completeness auto
termination
  by (relation "measure (\<lambda>(q, n0, k). 17 - k)") auto

declare shortest_digits.simps [simp del]

definition format_digits :: "string \<Rightarrow> int \<Rightarrow> string" where
  "format_digits ds n =
     (let k = int (length ds)
      in if k \<le> n \<and> n \<le> 21 then ds @ replicate (nat (n - k)) (CHR ''0'')
         else if 0 < n \<and> n \<le> 21 then take (nat n) ds @ ''.'' @ drop (nat n) ds
         else if - 6 < n \<and> n \<le> 0 then ''0.'' @ replicate (nat (- n)) (CHR ''0'') @ ds
         else
           let e = n - 1;
               es = (if e < 0 then ''-'' else ''+'') @ to_digits (nat \<bar>e\<bar>)
           in if k = 1 then ds @ ''e'' @ es
              else take 1 ds @ ''.'' @ drop 1 ds @ ''e'' @ es)"

definition positive_toString :: "rat \<Rightarrow> string" where
  "positive_toString q =
     (let (s, n) = shortest_digits q (ilog 10 q + 1) 1 in format_digits (to_digits s) n)"

fun js_toString :: "jsnum \<Rightarrow> string" where
  "js_toString NaN = ''NaN''"
| "js_toString PInf = ''Infinity''"
| "js_toString NInf = ''-Infinity''"
| "js_toString NZero = ''0''"
| "js_toString (Fin q) =
     (if q = 0 then ''0''
      else if q < 0 then ''-'' @ positive_toString (- q)
      else positive_toString q)"

subsection \<open>\<open>parseFloat\<close>\<close>

text \<open>
  \<open>parseFloat\<close> skips leading white space (the ASCII part of it here), reads the longest
  prefix that is a decimal literal (sign, \<open>Infinity\<close> or digits with an optional point and
  exponent) and rounds its value; it is \<open>NaN\<close> when there is no such prefix.
\<close>

definition is_space :: "char \<Rightarrow> bool" where
  "is_space c = (c \<in> {CHR 0x09, CHR 0x0A, CHR 0x0B, CHR 0x0C, CHR 0x0D, CHR '' ''})"

definition exponent_part :: "string \<Rightarrow> int" where
  "exponent_part r =
     (case r of
        [] \<Rightarrow> 0
      | c # t \<Rightarrow>
          if c = CHR ''e'' \<or> c = CHR ''E'' then
            (let neg = (case t of [] \<Rightarrow> False | d # _ \<Rightarrow> d = CHR ''-'');
                 t' = (case t of [] \<Rightarrow> []
                       | d # u \<Rightarrow> if d = CHR ''-'' \<or> d = CHR ''+'' then u else t);
                 ds = takeWhile is_digit t'
             in if ds = [] then 0
                else if neg then - int (digits_val ds) else int (digits_val ds))
          else 0)"

definition parseFloat :: "string \<Rightarrow> jsnum" where
  "parseFloat str =
     (let s = dropWhile is_space str;
          neg = (case s of [] \<Rightarrow> False | c # _ \<Rightarrow> c = CHR ''-'');
          s1 = (case s of [] \<Rightarrow> []
                | c # t \<Rightarrow> if c = CHR ''-'' \<or> c = CHR ''+'' then t else s)
      in if take 8 s1 = ''Infinity'' then signed_inf neg
         else
           let ip = takeWhile is_digit s1;
               r1 = dropWhile is_digit s1;
               fp = (case r1 of [] \<Rightarrow> []
                     | c # t \<Rightarrow> if c = CHR ''.'' then takeWhile is_digit t else []);
               r2 = (case r1 of [] \<Rightarrow> []
                     | c # t \<Rightarrow> if c = CHR ''.'' then dropWhile is_digit t else r1)
           in if ip = [] \<and> fp = [] then NaN
              else
                let v = of_nat (digits_val (ip @ fp))
                          * 10 powi (exponent_part r2 - int (length fp))
                in if v = 0 then signed_zero neg
                   else fround (if neg then - v else v))"

section \<open>The history store (convex/calculator.ts)\<close>

text \<open>
  The table \<open>calculations\<close> holds documents with the fields \<open>userId\<close>, \<open>expression\<close> and
  \<open>result\<close>, and the creation time the database gives each document. The table is the
  list of its documents in insertion order; an inserted document gets a creation time
  later than every earlier one. The opaque document identifier is left out.
\<close>

record calculation =
  creationTime :: nat
  userId :: string
  doc_expression :: string
  doc_result :: string

text \<open>
  The context of a server function: the identity \<open>getAuthUserId\<close> finds (\<open>None\<close> is
  \<open>null\<close>) and the table.
\<close>

record ctx =
  auth :: "string option"
  calculations :: "calculation list"

text \<open>
  The errors thrown: the one of the mutation, and the engine's when the call stack is
  exhausted.
\<close>

datatype error = Error string | RangeError string

definition getAuthUserId :: "ctx \<Rightarrow> string option" where
  "getAuthUserId c = auth c"

text \<open>\<open>!userId\<close>: \<open>null\<close> and the empty string are falsy.\<close>

definition falsy :: "string option \<Rightarrow> bool" where
  "falsy v = (v = None \<or> v = Some [])"

definition fresh_time :: "calculation list \<Rightarrow> nat" where
  "fresh_time docs = (case docs of [] \<Rightarrow> 0 | _ \<Rightarrow> Suc (Max (set (map creationTime docs))))"

definition db_insert :: "calculation list \<Rightarrow> string \<Rightarrow> string \<Rightarrow> string \<Rightarrow> calculation list" where
  "db_insert docs u e r =
     docs @ [\<lparr>creationTime = fresh_time docs, userId = u, doc_expression = e, doc_result = r\<rparr>]"

definition saveCalculation :: "ctx \<Rightarrow> string \<Rightarrow> string \<Rightarrow> error + ctx" where
  "saveCalculation c expr res =
     (let uid = getAuthUserId c
      in if falsy uid then Inl (Error ''User must be authenticated'')
         else Inr (c\<lparr>calculations := db_insert (calculations c) (the uid) expr res\<rparr>))"

text \<open>
  The query reads the index \<open>by_user\<close> at the user's identity, in descending order (of
  creation time), and takes 20 documents.
\<close>

definition getHistory :: "ctx \<Rightarrow> calculation list" where
  "getHistory c =
     (let uid = getAuthUserId c
      in if falsy uid then []
         else take 20 (rev (sort_key creationTime
                (filter (\<lambda>d. userId d = the uid) (calculations c)))))"

section \<open>The calculator (src/Calculator.tsx)\<close>

record history_entry =
  expression :: string
  result :: string
  timestamp :: nat

datatype angle = deg | rad

text \<open>
  The state of the component, with the server the mutation runs on and the console the
  failures of the mutation are logged to. A handler runs on the state of the last render
  and returns the next state; the toasts and the markup are left out.
\<close>

record world =
  display :: string
  previousValue :: "jsnum option"
  operation :: "string option"
  waitingForOperand :: bool
  memory :: jsnum
  history :: "history_entry list"
  showHistory :: bool
  angleMode :: angle
  server :: ctx
  console :: "error list"

definition init :: "ctx \<Rightarrow> world" where
  "init c =
     \<lparr>display = ''0'', previousValue = None, operation = None, waitingForOperand = False,
      memory = Fin 0, history = [], showHistory = False, angleMode = deg,
      server = c, console = []\<rparr>"

text \<open>The operator and function symbols that are not ASCII, in UTF-8.\<close>

definition sym_times :: string where "sym_times = [CHR 0xC3, CHR 0x97]"
definition sym_divide :: string where "sym_divide = [CHR 0xC3, CHR 0xB7]"
definition sym_degree :: string where "sym_degree = [CHR 0xC2, CHR 0xB0]"
definition sym_root :: string where "sym_root = [CHR 0xE2, CHR 0x88, CHR 0x9A]"
definition sym_squared :: string where "sym_squared = [CHR 0xC2, CHR 0xB2]"
definition sym_cubed :: string where "sym_cubed = [CHR 0xC2, CHR 0xB3]"
definition sym_pi :: string where "sym_pi = [CHR 0xCF, CHR 0x80]"

definition inputNumber :: "string \<Rightarrow> world \<Rightarrow> world" where
  "inputNumber num w =
     (if waitingForOperand w then w\<lparr>display := num, waitingForOperand := False\<rparr>
      else w\<lparr>display := (if display w = ''0'' then num else display w @ num)\<rparr>)"

definition inputDecimal :: "world \<Rightarrow> world" where
  "inputDecimal w =
     (if waitingForOperand w then w\<lparr>display := ''0.'', waitingForOperand := False\<rparr>
      else if CHR ''.'' \<notin> set (display w) then w\<lparr>display := display w @ ''.''\<rparr>
      else w)"

definition clear :: "world \<Rightarrow> world" where
  "clear w =
     w\<lparr>display := ''0'', previousValue := None, operation := None, waitingForOperand := False\<rparr>"

definition clearEntry :: "world \<Rightarrow> world" where
  "clearEntry w = w\<lparr>display := ''0''\<rparr>"

definition calculate :: "mathlib \<Rightarrow> jsnum \<Rightarrow> jsnum \<Rightarrow> string \<Rightarrow> jsnum" where
  "calculate M firstValue secondValue op =
     (if op = ''+'' then js_add firstValue secondValue
      else if op = ''-'' then js_sub firstValue secondValue
      else if op = sym_times then js_mul firstValue secondValue
      else if op = sym_divide then
        (if \<not> js_strict_eq secondValue (Fin 0) then js_div firstValue secondValue else Fin 0)
      else if op = ''^'' then math_pow M firstValue secondValue
      else if op = ''mod'' then js_rem firstValue secondValue
      else secondValue)"

text \<open>\<open>previousValue || 0\<close>.\<close>

definition or_zero :: "jsnum \<Rightarrow> jsnum" where
  "or_zero v = (if truthy v then v else Fin 0)"

definition performOperation :: "mathlib \<Rightarrow> string \<Rightarrow> world \<Rightarrow> world" where
  "performOperation M nextOperation w =
     (let inputValue = parseFloat (display w);
          w1 = (case previousValue w of
                  None \<Rightarrow> w\<lparr>previousValue := Some inputValue\<rparr>
                | Some pv \<Rightarrow>
                    if \<not> falsy (operation w) then
                      let currentValue = or_zero pv;
                          newValue = calculate M currentValue inputValue (the (operation w))
                      in w\<lparr>display := js_toString newValue, previousValue := Some newValue\<rparr>
                    else w)
      in w1\<lparr>waitingForOperand := True, operation := Some nextOperation\<rparr>)"

text \<open>
  \<open>factorial\<close> calls itself on \<open>n - 1\<close>, one call in the other. Its first argument here is
  the number of nested calls the call stack has room for: with no room left the engine
  throws \<open>RangeError\<close>, and the error goes through every caller.
\<close>

fun factorial :: "nat \<Rightarrow> jsnum \<Rightarrow> error + jsnum" where
  "factorial 0 n = Inl (RangeError ''Maximum call stack size exceeded'')"
| "factorial (Suc d) n =
     (if js_lt n (Fin 0) then Inr (Fin 0)
      else if js_strict_eq n (Fin 0) \<or> js_strict_eq n (Fin 1) then Inr (Fin 1)
      else (case factorial d (js_sub n (Fin 1)) of
              Inl err \<Rightarrow> Inl err
            | Inr r \<Rightarrow> Inr (js_mul n r)))"

text \<open>
  \<open>addToHistory\<close> puts the entry in front of the first nine local entries and calls the
  mutation; a failure of the mutation is caught and logged.
\<close>

definition addToHistory :: "nat \<Rightarrow> string \<Rightarrow> string \<Rightarrow> world \<Rightarrow> world" where
  "addToHistory now expr res w =
     (let newEntry = \<lparr>expression = expr, result = res, timestamp = now\<rparr>;
          w1 = w\<lparr>history := newEntry # take 9 (history w)\<rparr>
      in case saveCalculation (server w1) expr res of
           Inl err \<Rightarrow> w1\<lparr>console := console w1 @ [err]\<rparr>
         | Inr c \<Rightarrow> w1\<lparr>server := c\<rparr>)"

text \<open>The argument of the trigonometric functions, and the unit in their expression.\<close>

definition radians :: "angle \<Rightarrow> jsnum \<Rightarrow> jsnum" where
  "radians a v = (if a = deg then js_div (js_mul v math_PI) (Fin 180) else v)"

definition unit_text :: "angle \<Rightarrow> string" where
  "unit_text a = (if a = deg then sym_degree else '' rad'')"

text \<open>The end of \<open>performScientificOperation\<close>, after the \<open>switch\<close>.\<close>

definition show_result :: "nat \<Rightarrow> jsnum \<Rightarrow> string \<Rightarrow> world \<Rightarrow> world" where
  "show_result now res expr w =
     (addToHistory now expr (js_toString res) (w\<lparr>display := js_toString res\<rparr>))
       \<lparr>waitingForOperand := True\<rparr>"

text \<open>
  \<open>performScientificOperation\<close> is \<open>None\<close> when the factorial throws: the handler does not
  return, and no state is set.
\<close>

definition performScientificOperation :: "mathlib \<Rightarrow> nat \<Rightarrow> string \<Rightarrow> world \<Rightarrow> world option" where
  "performScientificOperation M now op w =
     (let v = parseFloat (display w); a = angleMode w
      in if op = ''sin'' then
           Some (show_result now (math_sin M (radians a v))
                  (''sin('' @ js_toString v @ unit_text a @ '')'') w)
         else if op = ''cos'' then
           Some (show_result now (math_cos M (radians a v))
                  (''cos('' @ js_toString v @ unit_text a @ '')'') w)
         else if op = ''tan'' then
           Some (show_result now (math_tan M (radians a v))
                  (''tan('' @ js_toString v @ unit_text a @ '')'') w)
         else if op = ''log'' then
           Some (show_result now (math_log10 M v) (''log('' @ js_toString v @ '')'') w)
         else if op = ''ln'' then
           Some (show_result now (math_log M v) (''ln('' @ js_toString v @ '')'') w)
         else if op = ''sqrt'' then
           Some (show_result now (math_sqrt M v) (sym_root @ ''('' @ js_toString v @ '')'') w)
         else if op = ''x'' @ sym_squared then
           Some (show_result now (js_mul v v) (''('' @ js_toString v @ '')'' @ sym_squared) w)
         else if op = ''x'' @ sym_cubed then
           Some (show_result now (js_mul (js_mul v v) v)
                  (''('' @ js_toString v @ '')'' @ sym_cubed) w)
         else if op = ''1/x'' then
           Some (show_result now (js_div (Fin 1) v) (''1/('' @ js_toString v @ '')'') w)
         else if op = ''!'' then
           (case factorial (stack_depth M) (math_floor v) of
              Inl err \<Rightarrow> None
            | Inr r \<Rightarrow> Some (show_result now r (js_toString (math_floor v) @ ''!'') w))
         else if op = sym_pi then Some (show_result now math_PI sym_pi w)
         else if op = ''e'' then Some (show_result now math_E ''e'' w)
         else Some w)"

definition performEquals :: "mathlib \<Rightarrow> nat \<Rightarrow> world \<Rightarrow> world" where
  "performEquals M now w =
     (let inputValue = parseFloat (display w)
      in if previousValue w \<noteq> None \<and> \<not> falsy (operation w) then
           let pv = the (previousValue w);
               op = the (operation w);
               newValue = calculate M pv inputValue op;
               expr = js_toString pv @ '' '' @ op @ '' '' @ js_toString inputValue
           in (addToHistory now expr (js_toString newValue)
                 (w\<lparr>display := js_toString newValue\<rparr>))
                \<lparr>previousValue := None, operation := None, waitingForOperand := True\<rparr>
         else w)"

definition memoryStore :: "world \<Rightarrow> world" where
  "memoryStore w = w\<lparr>memory := parseFloat (display w)\<rparr>"

definition memoryRecall :: "world \<Rightarrow> world" where
  "memoryRecall w = w\<lparr>display := js_toString (memory w), waitingForOperand := True\<rparr>"

definition memoryClear :: "world \<Rightarrow> world" where
  "memoryClear w = w\<lparr>memory := Fin 0\<rparr>"

definition memoryAdd :: "world \<Rightarrow> world" where
  "memoryAdd w = w\<lparr>memory := js_add (memory w) (parseFloat (display w))\<rparr>"

text \<open>The handlers written in the markup: backspace, sign change, angle mode, clearing the local history.\<close>

definition backspace :: "world \<Rightarrow> world" where
  "backspace w = w\<lparr>display := (if butlast (display w) = [] then ''0'' else butlast (display w))\<rparr>"

definition negate :: "world \<Rightarrow> world" where
  "negate w = w\<lparr>display := js_toString (js_neg (parseFloat (display w)))\<rparr>"

definition toggleAngleMode :: "world \<Rightarrow> world" where
  "toggleAngleMode w = w\<lparr>angleMode := (if angleMode w = deg then rad else deg)\<rparr>"

definition clearHistory :: "world \<Rightarrow> world" where
  "clearHistory w = w\<lparr>history := []\<rparr>"

subsection \<open>The buttons\<close>

datatype key =
    Digit char | Decimal | Clear | ClearEntry | Backspace | Negate
  | Operator string | Scientific string | Equals
  | MC | MR | MS | MPlus | ToggleAngle | ClearHistory

definition operators :: "string list" where
  "operators = [''+'', ''-'', sym_times, sym_divide, ''^'', ''mod'']"

definition scientific_functions :: "string list" where
  "scientific_functions = [''sin'', ''cos'', ''tan'', ''log'', ''ln'', ''x'' @ sym_squared, ''x'' @ sym_cubed,
     ''sqrt'', ''1/x'', sym_pi, ''e'', ''!'']"

text \<open>The keys the keypad has.\<close>

fun on_keypad :: "key \<Rightarrow> bool" where
  "on_keypad (Digit c) = is_digit c"
| "on_keypad (Operator op) = (op \<in> set operators)"
| "on_keypad (Scientific f) = (f \<in> set scientific_functions)"
| "on_keypad _ = True"

text \<open>Pressing a key at the time \<open>now\<close>; \<open>None\<close> when the handler throws.\<close>

fun press :: "mathlib \<Rightarrow> nat \<Rightarrow> key \<Rightarrow> world \<Rightarrow> world option" where
  "press M now (Digit c) w = Some (inputNumber [c] w)"
| "press M now Decimal w = Some (inputDecimal w)"
| "press M now Clear w = Some (clear w)"
| "press M now ClearEntry w = Some (clearEntry w)"
| "press M now Backspace w = Some (backspace w)"
| "press M now Negate w = Some (negate w)"
| "press M now (Operator op) w = Some (performOperation M op w)"
| "press M now (Scientific f) w = performScientificOperation M now f w"
| "press M now Equals w = Some (performEquals M now w)"
| "press M now MC w = Some (memoryClear w)"
| "press M now MR w = Some (memoryRecall w)"
| "press M now MS w = Some (memoryStore w)"
| "press M now MPlus w = Some (memoryAdd w)"
| "press M now ToggleAngle w = Some (toggleAngleMode w)"
| "press M now ClearHistory w = Some (clearHistory w)"

text \<open>
  A run of key presses, each with its time; a handler that throws leaves the state as
  it was.
\<close>

fun run :: "mathlib \<Rightarrow> (nat \<times> key) list \<Rightarrow> world \<Rightarrow> world" where
  "run M [] w = w"
| "run M ((now, k) # ks) w =
     run M ks (case press M now k w of None \<Rightarrow> w | Some w' \<Rightarrow> w')"

text \<open>The states reachable from the initial one by the keys of the keypad.\<close>

inductive reachable :: "mathlib \<Rightarrow> ctx \<Rightarrow> world \<Rightarrow> bool" for M :: mathlib and c :: ctx where
  start: "reachable M c (init c)"
| step: "reachable M c w \<Longrightarrow> on_keypad k \<Longrightarrow> press M now k w = Some w' \<Longrightarrow> reachable M c w'"

section \<open>Properties to state\<close>

text \<open>The pending operator comes with a staged value.\<close>

definition pending_inv :: "world \<Rightarrow> bool" where
  "pending_inv w = (operation w \<noteq> None \<longrightarrow> previousValue w \<noteq> None)"

text \<open>
  A decimal numeral: an optional leading minus, then digits with at most one decimal
  point.
\<close>

definition decimal_numeral :: "string \<Rightarrow> bool" where
  "decimal_numeral s =
     (let b = (case s of [] \<Rightarrow> [] | c # t \<Rightarrow> if c = CHR ''-'' then t else s)
      in list_ex is_digit b \<and> list_all (\<lambda>c. is_digit c \<or> c = CHR ''.'') b
         \<and> count_list b (CHR ''.'') \<le> 1)"

text \<open>The characters a stringified number is written with.\<close>

definition number_char :: "char \<Rightarrow> bool" where
  "number_char c = (c \<in> set ''0123456789.-+eInfinityNaN'')"

text \<open>A display that holds a stringified number, or what is left of one.\<close>

definition written :: "string \<Rightarrow> bool" where
  "written s = (s \<noteq> [] \<and> (\<forall>c \<in> set s. number_char c))"

text \<open>A display that was typed in: digits and at most one point, a digit first.\<close>

definition typed :: "string \<Rightarrow> bool" where
  "typed s = (s \<noteq> [] \<and> is_digit (hd s) \<and> (\<forall>c \<in> set s. is_digit c \<or> c = CHR ''.'')
     \<and> count_list s (CHR ''.'') \<le> 1)"

text \<open>The characters a decimal numeral is written with.\<close>

definition plain_char :: "char \<Rightarrow> bool" where
  "plain_char c = (is_digit c \<or> c = CHR ''.'' \<or> c = CHR ''-'')"

text \<open>
  The characters only a stringified result has: the letters of \<open>NaN\<close> and \<open>Infinity\<close>,
  and the \<open>e\<close> and \<open>+\<close> of the exponent notation.
\<close>

definition result_char :: "char \<Rightarrow> bool" where
  "result_char c = (c \<in> set ''+eInfinityNaN'')"

text \<open>
  The shape of every display: not empty, no point first, at most one point, and before
  the first character that only a result has, no minus sign but the leading one.
\<close>

definition shown :: "string \<Rightarrow> bool" where
  "shown s = (s \<noteq> [] \<and> hd s \<noteq> CHR ''.'' \<and> (\<forall>c \<in> set s. number_char c)
     \<and> count_list s (CHR ''.'') \<le> 1
     \<and> CHR ''-'' \<notin> set (tl (takeWhile plain_char s)))"

text \<open>The keys that type a number in.\<close>

fun typing_key :: "key \<Rightarrow> bool" where
  "typing_key (Digit c) = is_digit c"
| "typing_key Decimal = True"
| "typing_key Clear = True"
| "typing_key ClearEntry = True"
| "typing_key Backspace = True"
| "typing_key _ = False"

text \<open>
  A key press completes a calculation when it is \<open>=\<close> with a staged value and a pending
  operator, or a function key whose handler returns.
\<close>

fun completes :: "mathlib \<Rightarrow> nat \<Rightarrow> key \<Rightarrow> world \<Rightarrow> bool" where
  "completes M now Equals w = (previousValue w \<noteq> None \<and> \<not> falsy (operation w))"
| "completes M now (Scientific f) w =
     (f \<in> set scientific_functions \<and> performScientificOperation M now f w \<noteq> None)"
| "completes M now _ w = False"

fun completed :: "mathlib \<Rightarrow> (nat \<times> key) list \<Rightarrow> world \<Rightarrow> nat" where
  "completed M [] w = 0"
| "completed M ((now, k) # ks) w =
     (if completes M now k w then 1 else 0)
       + completed M ks (case press M now k w of None \<Rightarrow> w | Some w' \<Rightarrow> w')"



text \<open>
  For runs on concrete keys: an engine with a call stack of 10000 calls (none of its
  transcendental functions is called in these runs), a signed-in and a signed-out server
  with an empty table, and key presses that all happen at time 0.
\<close>

definition example_math :: mathlib where
  "example_math =
     \<lparr>math_sin = (\<lambda>x. NaN), math_cos = (\<lambda>x. NaN), math_tan = (\<lambda>x. NaN),
      math_log10 = (\<lambda>x. NaN), math_log = (\<lambda>x. NaN), math_sqrt = (\<lambda>x. NaN),
      math_pow = (\<lambda>x y. NaN), stack_depth = 10000\<rparr>"

definition signed_in :: ctx where
  "signed_in = \<lparr>auth = Some ''user1'', calculations = []\<rparr>"

definition signed_out :: ctx where
  "signed_out = \<lparr>auth = None, calculations = []\<rparr>"

definition keys :: "key list \<Rightarrow> (nat \<times> key) list" where
  "keys ks = map (Pair 0) ks"

section \<open>Rounding\<close>

text \<open>\<open>ilog\<close> is the floor of the logarithm.\<close>

lemma ilog_bounds:
  assumes "0 < q" "1 < b"
  shows "of_nat b powi ilog b q \<le> q" "q < of_nat b powi (ilog b q + 1)"
proof -
  obtain n d where nd: "quotient_of q = (n, d)" by (cases "quotient_of q")
  have d: "0 < d" using nd quotient_of_denom_pos by blast
  have q: "q = of_int n / of_int d" using nd quotient_of_div by blast
  have n: "0 < n" using assms(1) d unfolding q by (simp add: zero_less_divide_iff)
  define ln where "ln = floorlog b (nat n)"
  define ld where "ld = floorlog b (nat d)"
  have bn: "b ^ (ln - 1) \<le> nat n" "nat n < b ^ ln"
    using floorlog_bounds[of "nat n" b] n assms(2) by (auto simp: ln_def)
  have bd: "b ^ (ld - 1) \<le> nat d" "nat d < b ^ ld"
    using floorlog_bounds[of "nat d" b] d assms(2) by (auto simp: ld_def)
  have ln0: "0 < ln" using n assms(2) by (simp add: ln_def floorlog_def)
  have ld0: "0 < ld" using d assms(2) by (simp add: ld_def floorlog_def)
  let ?B = "of_nat b :: rat"
  have B: "1 < ?B" using assms(2) by simp
  have rn: "?B ^ (ln - 1) \<le> of_int n" "of_int n < ?B ^ ln"
  proof -
    have "(of_nat (b ^ (ln - 1)) :: rat) \<le> of_nat (nat n)" using bn(1) of_nat_le_iff by blast
    then show "?B ^ (ln - 1) \<le> of_int n" using n by simp
    have "(of_nat (nat n) :: rat) < of_nat (b ^ ln)" using bn(2) of_nat_less_iff by blast
    then show "of_int n < ?B ^ ln" using n by simp
  qed
  have rd: "?B ^ (ld - 1) \<le> of_int d" "of_int d < ?B ^ ld"
  proof -
    have "(of_nat (b ^ (ld - 1)) :: rat) \<le> of_nat (nat d)" using bd(1) of_nat_le_iff by blast
    then show "?B ^ (ld - 1) \<le> of_int d" using d by simp
    have "(of_nat (nat d) :: rat) < of_nat (b ^ ld)" using bd(2) of_nat_less_iff by blast
    then show "of_int d < ?B ^ ld" using d by simp
  qed
  define k where "k = int ln - int ld"
  have il: "ilog b q = (if ?B powi k \<le> q then k else k - 1)"
    by (simp add: ilog_def nd ln_def ld_def k_def Let_def)
  have dpos: "(0::rat) < of_int d" using d by simp
  have Bne: "?B \<noteq> 0" using B by simp
  have up: "q < ?B powi (k + 1)"
  proof -
    have "?B powi (k + 1) = ?B ^ ln / ?B ^ (ld - 1)"
    proof -
      have "k + 1 = int ln - int (ld - 1)" using ld0 by (simp add: k_def)
      then show ?thesis using Bne by (simp add: power_int_diff)
    qed
    moreover have "of_int n / of_int d < ?B ^ ln / ?B ^ (ld - 1)"
    proof -
      have "of_int n * ?B ^ (ld - 1) < ?B ^ ln * of_int d"
      proof -
        have "of_int n * ?B ^ (ld - 1) \<le> of_int n * of_int d"
          using rd(1) n by (simp add: mult_left_mono)
        also have "\<dots> < ?B ^ ln * of_int d" using rn(2) dpos by (simp add: mult_strict_right_mono)
        finally show ?thesis .
      qed
      moreover have "(0::rat) < ?B ^ (ld - 1)" using B by simp
      ultimately show ?thesis using dpos by (simp add: divide_simps)
    qed
    ultimately show ?thesis by (simp add: q)
  qed
  have lo: "?B powi (k - 1) \<le> q"
  proof -
    have "?B powi (k - 1) = ?B ^ (ln - 1) / ?B ^ ld"
    proof -
      have "k - 1 = int (ln - 1) - int ld" using ln0 by (simp add: k_def)
      then show ?thesis using Bne by (simp add: power_int_diff)
    qed
    moreover have "?B ^ (ln - 1) / ?B ^ ld \<le> of_int n / of_int d"
    proof -
      have "?B ^ (ln - 1) * of_int d \<le> of_int n * ?B ^ ld"
      proof -
        have "?B ^ (ln - 1) * of_int d \<le> of_int n * of_int d"
          using rn(1) dpos by (simp add: mult_right_mono)
        also have "\<dots> \<le> of_int n * ?B ^ ld" using rd(2) n by (simp add: mult_left_mono)
        finally show ?thesis .
      qed
      moreover have "(0::rat) < ?B ^ ld" using B by simp
      ultimately show ?thesis using dpos by (simp add: divide_simps)
    qed
    ultimately show ?thesis by (simp add: q)
  qed
  show "of_nat b powi ilog b q \<le> q" using il lo by auto
  show "q < of_nat b powi (ilog b q + 1)" using il up by (auto simp: not_le)
qed

lemma ilog_unique:
  assumes "0 < q" "1 < b" "of_nat b powi e \<le> q" "q < of_nat b powi (e + 1)"
  shows "ilog b q = e"
proof -
  let ?B = "of_nat b :: rat"
  have B: "1 < ?B" using assms(2) by simp
  note bs = ilog_bounds[OF assms(1,2)]
  have "?B powi e < ?B powi (ilog b q + 1)" using assms(3) bs(2) by simp
  then have 1: "e < ilog b q + 1" using B power_int_strict_increasing[of "ilog b q + 1" e ?B]
    by (metis not_less order_less_le power_int_increasing less_le_not_le)
  have "?B powi ilog b q < ?B powi (e + 1)" using assms(4) bs(1) by simp
  then have 2: "ilog b q < e + 1" using B
    by (metis not_less order_less_le power_int_increasing less_le_not_le)
  show ?thesis using 1 2 by simp
qed

lemma powi_less_cancel:
  fixes x :: rat
  assumes "1 < x" "x powi a < x powi b"
  shows "a < b"
proof (rule ccontr)
  assume "\<not> a < b"
  then have "b \<le> a" by simp
  then have "x powi b \<le> x powi a" using assms(1) by (intro power_int_increasing) auto
  with assms(2) show False by simp
qed

lemma round_half_even_of_int: "round_half_even (of_int n) = n"
  by (simp add: round_half_even_def)

lemma fround_exact:
  assumes m: "\<bar>m\<bar> < 2 ^ 53" and j: "- 1074 \<le> j" "j \<le> 971"
  shows "fround (of_int m * 2 powi j) = Fin (of_int m * 2 powi j)"
proof (cases "m = 0")
  case True
  then show ?thesis by (simp add: fround_def)
next
  case False
  define q :: rat where "q = of_int m * 2 powi j"
  define a :: rat where "a = \<bar>q\<bar>"
  have a_eq: "a = of_int \<bar>m\<bar> * 2 powi j"
    by (simp add: a_def q_def abs_mult power_int_abs)
  have pj: "(0::rat) < 2 powi j" by (simp add: zero_less_power_int)
  have a_pos: "0 < a" using False pj by (simp add: a_eq)
  have q_ne: "q \<noteq> 0" using a_pos by (auto simp: a_def)
  define e where "e = ilog 2 a"
  have eb: "2 powi e \<le> a" "a < 2 powi (e + 1)"
    using ilog_bounds[OF a_pos, of 2] by (simp_all add: e_def)
  have "a < 2 ^ 53 * 2 powi j"
  proof -
    have "(of_int \<bar>m\<bar> :: rat) < of_int (2 ^ 53)" using m of_int_less_iff by blast
    then show ?thesis using pj by (simp add: a_eq)
  qed
  also have "\<dots> = 2 powi (53 + j)" by (simp add: power_int_add)
  finally have a_lt: "a < 2 powi (53 + j)" .
  have "(2::rat) powi e < 2 powi (53 + j)" using eb(1) a_lt by simp
  then have e_le: "e < 53 + j" by (rule powi_less_cancel[rotated]) simp
  define p where "p = max (e - 52) (- 1074)"
  have p_le: "p \<le> j" using e_le j by (simp add: p_def)
  have quot: "a / 2 powi p = of_int (\<bar>m\<bar> * 2 ^ nat (j - p))"
  proof -
    have "(2::rat) powi j = 2 powi (j - p) * 2 powi p"
      by (simp add: power_int_add[symmetric])
    moreover have "(2::rat) powi (j - p) = 2 ^ nat (j - p)"
      using p_le by (simp add: power_int_nonneg_exp)
    ultimately show ?thesis by (simp add: a_eq)
  qed
  have rnd: "of_int (round_half_even (a / 2 powi p)) * 2 powi p = a"
  proof -
    have "of_int (round_half_even (a / 2 powi p)) = a / 2 powi p"
      unfolding quot round_half_even_of_int ..
    then show ?thesis by simp
  qed
  have a_small: "\<not> 2 ^ 1024 \<le> a"
  proof -
    have "(2::rat) powi (53 + j) \<le> 2 powi 1024"
      using j by (intro power_int_increasing) auto
    then show ?thesis using a_lt by simp
  qed
  have "fround q = Fin (if q < 0 then - a else a)"
    using q_ne a_pos a_small rnd
    by (simp add: fround_def Let_def a_def[symmetric] e_def[symmetric] p_def[symmetric])
  moreover have "(if q < 0 then - a else a) = q" by (simp add: a_def)
  ultimately show ?thesis by (simp add: q_def)
qed

lemma fround_int: "\<bar>k\<bar> \<le> 2 ^ 53 \<Longrightarrow> fround (of_int k) = Fin (of_int k)"
proof (cases "\<bar>k\<bar> = 2 ^ 53")
  case True
  then have "k = 2 ^ 52 * 2 \<or> k = - (2 ^ 52) * 2" by (auto simp: abs_if split: if_splits)
  then show ?thesis using fround_exact[of "2 ^ 52" 1] fround_exact[of "- (2 ^ 52)" 1]
    by auto
next
  case False
  assume "\<bar>k\<bar> \<le> 2 ^ 53"
  with False have "\<bar>k\<bar> < 2 ^ 53" by simp
  then show ?thesis using fround_exact[of k 0] by simp
qed

lemma fround_numeral [simp]:
  "numeral n \<le> (9007199254740992::int) \<Longrightarrow> fround (numeral n) = Fin (numeral n)"
  using fround_int[of "numeral n"] by simp

lemma fround_neg_numeral [simp]:
  "numeral n \<le> (9007199254740992::int) \<Longrightarrow> fround (- numeral n) = Fin (- numeral n)"
  using fround_int[of "- numeral n"] by simp

lemma fround_one [simp]: "fround 1 = Fin 1"
  using fround_int[of 1] by simp

section \<open>The binary operations\<close>

lemma strict_eq_zero: "js_strict_eq y (Fin 0) = is_zero y"
  by (cases y) auto

text \<open>
  Claim C3: \<open>calculate\<close> at the division sign returns the positive zero for every
  dividend when the divisor is a zero (not an infinity, not \<open>NaN\<close>, no error); when the
  divisor is not a zero it returns the IEEE-754 quotient, which for finite operands other
  than zero is the exact quotient rounded to the nearest double.
\<close>

theorem calculate_divide:
  "(is_zero y \<longrightarrow> calculate M x y sym_divide = Fin 0)
   \<and> (\<not> is_zero y \<longrightarrow> calculate M x y sym_divide = js_div x y)
   \<and> (a \<noteq> 0 \<and> b \<noteq> 0 \<longrightarrow> calculate M (Fin a) (Fin b) sym_divide = fround (a / b))"
  by (simp add: calculate_def sym_divide_def sym_times_def strict_eq_zero js_div_def)

theorem calculate_divide_witness:
  "is_zero NZero \<and> calculate example_math PInf NZero sym_divide = Fin 0
   \<and> \<not> is_zero (Fin 4) \<and> calculate example_math (Fin 12) (Fin 4) sym_divide = Fin 3
   \<and> calculate example_math (Fin 1) (Fin 0) sym_divide = Fin 0
   \<and> calculate example_math NaN (Fin 0) sym_divide = Fin 0"
  using calculate_divide [of NZero example_math PInf 1 1]
    calculate_divide [of "Fin 4" example_math "Fin 12" 12 4]
    calculate_divide [of "Fin 0" example_math "Fin 1" 1 1]
    calculate_divide [of "Fin 0" example_math NaN 1 1]
  by (simp add: js_div_def)

section \<open>Evaluating the conversions\<close>

lemmas ts_simps = positive_toString_def ilog_def compute_floorlog digit_candidate_def Let_def format_digits_def to_digits.simps digit_char_def
lemmas pf_simps = parseFloat_def is_space_def is_digit_def digits_val_def digit_val_def exponent_part_def Let_def signed_zero_def signed_inf_def

lemma floor_rat_numeral_div [simp]:
  "\<lfloor>numeral a / numeral b :: rat\<rfloor> = numeral a div numeral b"
  by (metis floor_divide_of_int_eq of_int_numeral)

lemma floor_rat_one_div [simp]:
  "\<lfloor>1 / numeral b :: rat\<rfloor> = 1 div numeral b"
  by (metis floor_divide_of_int_eq of_int_numeral of_int_1)

lemma shortest_digits_found:
  "digit_candidate q n0 k \<noteq> None \<Longrightarrow> shortest_digits q n0 k = the (digit_candidate q n0 k)"
  by (subst shortest_digits.simps) auto

lemma shortest_digits_next:
  "digit_candidate q n0 k = None \<Longrightarrow> k < 17 \<Longrightarrow>
   shortest_digits q n0 k = shortest_digits q n0 (k + 1)"
  by (subst shortest_digits.simps) auto

section \<open>The store and the signed-out user\<close>

text \<open>
  Claim C7: without an authenticated identity \<open>saveCalculation\<close> fails with the error
  \<open>User must be authenticated\<close> and \<open>getHistory\<close> returns the empty list, not an error;
  \<open>addToHistory\<close> catches the failure, logs it, and changes the local history only, so
  the display is what it would be with any other server. With an identity the document
  is inserted as it is, whatever the expression and the result are and whatever the
  table holds already.
\<close>

theorem store_authentication:
  "(falsy (auth c) \<longrightarrow>
      saveCalculation c e r = Inl (Error ''User must be authenticated'')
      \<and> getHistory c = []
      \<and> (server w = c \<longrightarrow>
           addToHistory now e r w =
             w\<lparr>history := \<lparr>expression = e, result = r, timestamp = now\<rparr> # take 9 (history w),
               console := console w @ [Error ''User must be authenticated'']\<rparr>))
   \<and> (auth c = Some u \<and> u \<noteq> [] \<longrightarrow>
      saveCalculation c e r =
        Inr (c\<lparr>calculations := calculations c @
              [\<lparr>creationTime = fresh_time (calculations c), userId = u,
                doc_expression = e, doc_result = r\<rparr>]\<rparr>))
   \<and> display (addToHistory now e r w) = display w
   \<and> display (performEquals M now (w\<lparr>server := c\<rparr>)) = display (performEquals M now w)"
  by (auto simp: saveCalculation_def getHistory_def getAuthUserId_def falsy_def db_insert_def
      addToHistory_def performEquals_def Let_def split: sum.splits)

theorem store_authentication_witness:
  "falsy (auth signed_out)
   \<and> saveCalculation signed_out ''1 + 1'' ''2'' = Inl (Error ''User must be authenticated'')
   \<and> getHistory signed_out = []
   \<and> display (addToHistory 0 ''1 + 1'' ''2'' (init signed_out)) = ''0''
   \<and> console (addToHistory 0 ''1 + 1'' ''2'' (init signed_out)) = [Error ''User must be authenticated'']
   \<and> auth signed_in = Some ''user1''
   \<and> saveCalculation signed_in ''1 + 1'' ''2'' =
       Inr \<lparr>auth = Some ''user1'', calculations =
             [\<lparr>creationTime = 0, userId = ''user1'', doc_expression = ''1 + 1'', doc_result = ''2''\<rparr>]\<rparr>"
  using store_authentication [of signed_out "''1 + 1''" "''2''" "init signed_out" 0 "''user1''" example_math]
    store_authentication [of signed_in "''1 + 1''" "''2''" "init signed_in" 0 "''user1''" example_math]
  by (simp add: signed_out_def signed_in_def falsy_def init_def fresh_time_def)

section \<open>The equals key\<close>

lemmas engine_defs = inputNumber_def inputDecimal_def clear_def clearEntry_def performOperation_def
  performEquals_def memoryStore_def memoryRecall_def memoryClear_def memoryAdd_def backspace_def
  negate_def toggleAngleMode_def clearHistory_def addToHistory_def saveCalculation_def
  getAuthUserId_def falsy_def db_insert_def fresh_time_def or_zero_def calculate_def
  sym_times_def sym_divide_def

text \<open>
  Claim C1: when a value is staged and an operator is pending, \<open>performEquals\<close> shows
  the string of \<open>calculate\<close> on the staged value, the parsed display and the operator,
  clears the staged value and the operator, sets \<open>waitingForOperand\<close>, and records
  exactly one calculation, with the expression "staged value, operator, current value"
  and the shown string as result: one entry in front of the local history and one call of
  the mutation, which for a signed-in user adds one document at the end of the table and
  for a signed-out user fails and is logged. When the staged value or the operator is
  absent, the state stays as it is.
\<close>

theorem performEquals_evaluates:
  "(previousValue w = Some pv \<and> operation w = Some op \<and> op \<noteq> [] \<longrightarrow>
      (let v = calculate M pv (parseFloat (display w)) op;
           e = js_toString pv @ '' '' @ op @ '' '' @ js_toString (parseFloat (display w));
           w' = performEquals M now w
       in display w' = js_toString v
          \<and> previousValue w' = None \<and> operation w' = None \<and> waitingForOperand w'
          \<and> memory w' = memory w \<and> angleMode w' = angleMode w
          \<and> history w' = \<lparr>expression = e, result = js_toString v, timestamp = now\<rparr>
                # take 9 (history w)
          \<and> (auth (server w) = Some u \<and> u \<noteq> [] \<longrightarrow>
               calculations (server w') = calculations (server w) @
                 [\<lparr>creationTime = fresh_time (calculations (server w)), userId = u,
                   doc_expression = e, doc_result = js_toString v\<rparr>])
          \<and> (falsy (auth (server w)) \<longrightarrow>
               server w' = server w
               \<and> console w' = console w @ [Error ''User must be authenticated''])))
   \<and> (previousValue w = None \<or> operation w = None \<longrightarrow> performEquals M now w = w)"
  by (auto simp: performEquals_def addToHistory_def saveCalculation_def getAuthUserId_def
      falsy_def db_insert_def Let_def split: sum.splits)

theorem performEquals_evaluates_witness:
  "previousValue (run example_math (keys [Digit (CHR ''7''), Operator ''+'', Digit (CHR ''3'')]) (init signed_in)) = Some (Fin 7)
   \<and> operation (run example_math (keys [Digit (CHR ''7''), Operator ''+'', Digit (CHR ''3'')]) (init signed_in)) = Some ''+''
   \<and> display (run example_math (keys [Digit (CHR ''7''), Operator ''+'', Digit (CHR ''3''), Equals]) (init signed_in)) = ''10''
   \<and> history (run example_math (keys [Digit (CHR ''7''), Operator ''+'', Digit (CHR ''3''), Equals]) (init signed_in))
        = [\<lparr>expression = ''7 + 3'', result = ''10'', timestamp = 0\<rparr>]
   \<and> calculations (server (run example_math (keys [Digit (CHR ''7''), Operator ''+'', Digit (CHR ''3''), Equals]) (init signed_in)))
        = [\<lparr>creationTime = 0, userId = ''user1'', doc_expression = ''7 + 3'', doc_result = ''10''\<rparr>]
   \<and> previousValue (init signed_in) = None
   \<and> performEquals example_math 0 (init signed_in) = init signed_in"
proof -
  let ?w = "run example_math (keys [Digit (CHR ''7''), Operator ''+'', Digit (CHR ''3'')]) (init signed_in)"
  have w: "?w = (init signed_in)\<lparr>display := ''3'', previousValue := Some (Fin 7), operation := Some ''+''\<rparr>"
    by (simp add: keys_def init_def engine_defs pf_simps)
  have r: "run example_math (keys [Digit (CHR ''7''), Operator ''+'', Digit (CHR ''3''), Equals]) (init signed_in)
      = performEquals example_math 0 ?w"
    by (simp add: keys_def)
  have s7: "js_toString (Fin 7) = ''7''" by (simp add: ts_simps shortest_digits_found shortest_digits_next)
  have s3: "js_toString (Fin 3) = ''3''" by (simp add: ts_simps shortest_digits_found shortest_digits_next)
  have s10: "js_toString (Fin 10) = ''10''" by (simp add: ts_simps shortest_digits_found shortest_digits_next)
  have p3: "parseFloat ''3'' = Fin 3" by (simp add: pf_simps)
  have c: "calculate example_math (Fin 7) (Fin 3) ''+'' = Fin 10"
    by (simp add: calculate_def js_add_def)
  show ?thesis
    using performEquals_evaluates [of ?w "Fin 7" "''+''" example_math 0 "''user1''"]
      performEquals_evaluates [of "init signed_in" "Fin 7" "''+''" example_math 0 "''user1''"]
    unfolding r w
    by (simp add: Let_def s7 s3 s10 p3 c init_def signed_in_def fresh_time_def
        del: js_toString.simps)
qed

section \<open>The staged value and the pending operator\<close>

lemma addToHistory_fields [simp]:
  "display (addToHistory now e r w) = display w"
  "previousValue (addToHistory now e r w) = previousValue w"
  "operation (addToHistory now e r w) = operation w"
  "waitingForOperand (addToHistory now e r w) = waitingForOperand w"
  "memory (addToHistory now e r w) = memory w"
  "angleMode (addToHistory now e r w) = angleMode w"
  "history (addToHistory now e r w) =
     \<lparr>expression = e, result = r, timestamp = now\<rparr> # take 9 (history w)"
  "auth (server (addToHistory now e r w)) = auth (server w)"
  by (simp_all add: addToHistory_def saveCalculation_def Let_def split: sum.splits)

lemma addToHistory_calculations:
  "calculations (server (addToHistory now e r w)) =
     (if falsy (auth (server w)) then calculations (server w)
      else calculations (server w) @
        [\<lparr>creationTime = fresh_time (calculations (server w)), userId = the (auth (server w)),
          doc_expression = e, doc_result = r\<rparr>])"
  by (simp add: addToHistory_def saveCalculation_def getAuthUserId_def db_insert_def Let_def)

lemma show_result_fields [simp]:
  "display (show_result now res e w) = js_toString res"
  "previousValue (show_result now res e w) = previousValue w"
  "operation (show_result now res e w) = operation w"
  "waitingForOperand (show_result now res e w) = True"
  "memory (show_result now res e w) = memory w"
  "angleMode (show_result now res e w) = angleMode w"
  "history (show_result now res e w) =
     \<lparr>expression = e, result = js_toString res, timestamp = now\<rparr> # take 9 (history w)"
  "auth (server (show_result now res e w)) = auth (server w)"
  by (simp_all add: show_result_def)

lemma show_result_calculations:
  "calculations (server (show_result now res e w)) =
     (if falsy (auth (server w)) then calculations (server w)
      else calculations (server w) @
        [\<lparr>creationTime = fresh_time (calculations (server w)), userId = the (auth (server w)),
          doc_expression = e, doc_result = js_toString res\<rparr>])"
  by (simp add: show_result_def addToHistory_calculations)

lemma scientific_cases:
  assumes "performScientificOperation M now f w = Some w'"
  shows "(f \<notin> set scientific_functions \<and> w' = w)
         \<or> (f \<in> set scientific_functions \<and> (\<exists>res e. w' = show_result now res e w))"
proof (cases "f \<in> set scientific_functions")
  case False
  then have "performScientificOperation M now f w = Some w"
    by (simp add: performScientificOperation_def scientific_functions_def Let_def)
  with assms False show ?thesis by simp
next
  case True
  then have "\<exists>res e. w' = show_result now res e w"
    using assms
    unfolding performScientificOperation_def scientific_functions_def Let_def
    by (auto split: if_splits sum.splits)
  with True show ?thesis by simp
qed

lemma press_pending_inv:
  assumes "pending_inv w" "press M now k w = Some w'"
  shows "pending_inv w'"
proof (cases k)
  case (Scientific f)
  then show ?thesis using assms scientific_cases[of M now f w w']
    by (auto simp: pending_inv_def)
qed (use assms in \<open>auto simp: pending_inv_def engine_defs Let_def split: option.splits if_splits\<close>)

lemma reachable_run:
  "reachable M c w \<Longrightarrow> \<forall>e \<in> set evs. on_keypad (snd e) \<Longrightarrow> reachable M c (run M evs w)"
proof (induction evs arbitrary: w)
  case Nil
  then show ?case by simp
next
  case (Cons a evs)
  obtain now k where a: "a = (now, k)" by (cases a)
  show ?case
  proof (cases "press M now k w")
    case None
    then show ?thesis using Cons by (simp add: a)
  next
    case (Some w')
    then have "reachable M c w'" using Cons.prems a reachable.step[of M c w k now w'] by simp
    then show ?thesis using Cons Some by (simp add: a)
  qed
qed

text \<open>
  Claim C4: in every state reachable from the initial one by the keys of the keypad, a
  pending operator comes with a staged value, and every key press keeps it so.
\<close>

theorem pending_operator_has_value:
  "(reachable M c w \<longrightarrow> pending_inv w)
   \<and> (pending_inv w \<and> press M now k w = Some w' \<longrightarrow> pending_inv w')"
proof -
  have "pending_inv w" if "reachable M c w"
    using that
  proof (induction rule: reachable.induct)
    case start
    then show ?case by (simp add: pending_inv_def init_def)
  next
    case (step w k now w')
    then show ?case using press_pending_inv by blast
  qed
  then show ?thesis using press_pending_inv by blast
qed

theorem pending_operator_has_value_witness:
  "reachable example_math signed_in
     (run example_math (keys [Digit (CHR ''7''), Operator ''+'']) (init signed_in))
   \<and> operation (run example_math (keys [Digit (CHR ''7''), Operator ''+'']) (init signed_in)) = Some ''+''
   \<and> previousValue (run example_math (keys [Digit (CHR ''7''), Operator ''+'']) (init signed_in)) \<noteq> None
   \<and> pending_inv (init signed_in)
   \<and> press example_math 0 (Operator ''+'') (init signed_in) = Some (performOperation example_math ''+'' (init signed_in))
   \<and> pending_inv (performOperation example_math ''+'' (init signed_in))"
proof -
  let ?w = "run example_math (keys [Digit (CHR ''7''), Operator ''+'']) (init signed_in)"
  have r: "reachable example_math signed_in ?w"
    by (rule reachable_run[OF reachable.start])
      (simp add: keys_def is_digit_def operators_def)
  have o: "operation ?w = Some ''+''"
    by (simp add: keys_def init_def engine_defs)
  have i: "pending_inv (init signed_in)" by (simp add: pending_inv_def init_def)
  show ?thesis
    using pending_operator_has_value [of example_math signed_in ?w 0 "Operator ''+''" "?w"]
      pending_operator_has_value [of example_math signed_in "init signed_in" 0 "Operator ''+''"
        "performOperation example_math ''+'' (init signed_in)"]
      r o i
    by (simp add: pending_inv_def)
qed

section \<open>The memory register\<close>

text \<open>
  Claim C9, as stated (after storing 10 and entering 5, two presses of the memory-add key
  leave 15 in the memory), fails: each press adds the display to the memory, and the
  second one finds 15 there.
\<close>

theorem memoryAdd_twice_counterexample:
  "memory (run example_math
      (keys [Digit (CHR ''1''), Digit (CHR ''0''), MS, ClearEntry, Digit (CHR ''5''), MPlus, MPlus])
      (init signed_in)) = Fin 20
   \<and> memory (run example_math
      (keys [Digit (CHR ''1''), Digit (CHR ''0''), MS, ClearEntry, Digit (CHR ''5''), MPlus, MPlus])
      (init signed_in)) \<noteq> Fin 15"
  by (simp add: keys_def init_def engine_defs pf_simps js_add_def)

text \<open>
  Claim C9, amended: \<open>memoryStore\<close> at the display 10 puts 10 in the memory; with 10 in
  the memory and 5 in the display, one \<open>memoryAdd\<close> leaves 15 and two leave 20.
\<close>

theorem memoryAdd_accumulates:
  "(display w = ''10'' \<longrightarrow> memory (memoryStore w) = Fin 10)
   \<and> (memory w = Fin 10 \<and> display w = ''5'' \<longrightarrow>
        memory (memoryAdd w) = Fin 15 \<and> memory (memoryAdd (memoryAdd w)) = Fin 20)"
  by (simp add: memoryStore_def memoryAdd_def pf_simps js_add_def)

theorem memoryAdd_accumulates_witness:
  "display (run example_math (keys [Digit (CHR ''1''), Digit (CHR ''0'')]) (init signed_in)) = ''10''
   \<and> memory (run example_math (keys [Digit (CHR ''1''), Digit (CHR ''0''), MS]) (init signed_in)) = Fin 10
   \<and> display (run example_math
        (keys [Digit (CHR ''1''), Digit (CHR ''0''), MS, ClearEntry, Digit (CHR ''5'')]) (init signed_in)) = ''5''
   \<and> memory (run example_math
        (keys [Digit (CHR ''1''), Digit (CHR ''0''), MS, ClearEntry, Digit (CHR ''5''), MPlus]) (init signed_in)) = Fin 15"
proof -
  let ?a = "run example_math (keys [Digit (CHR ''1''), Digit (CHR ''0'')]) (init signed_in)"
  let ?b = "run example_math
        (keys [Digit (CHR ''1''), Digit (CHR ''0''), MS, ClearEntry, Digit (CHR ''5'')]) (init signed_in)"
  have a: "display ?a = ''10''" by (simp add: keys_def init_def engine_defs)
  have ra: "run example_math (keys [Digit (CHR ''1''), Digit (CHR ''0''), MS]) (init signed_in)
      = memoryStore ?a" by (simp add: keys_def)
  have b: "display ?b = ''5''" by (simp add: keys_def init_def engine_defs)
  have mb: "memory ?b = memory (memoryStore ?a)" by (simp add: keys_def init_def engine_defs)
  have rb: "run example_math
        (keys [Digit (CHR ''1''), Digit (CHR ''0''), MS, ClearEntry, Digit (CHR ''5''), MPlus]) (init signed_in)
      = memoryAdd ?b" by (simp add: keys_def)
  show ?thesis
    using memoryAdd_accumulates [of ?a] memoryAdd_accumulates [of ?b] a b mb
    unfolding ra rb by simp
qed

section \<open>The local history\<close>

lemma scientific_completes:
  assumes "performScientificOperation M now f w = Some w'" "f \<in> set scientific_functions"
  shows "\<exists>res e. w' = show_result now res e w"
  using scientific_cases[OF assms(1)] assms(2) by auto

lemma scientific_ignored:
  "f \<notin> set scientific_functions \<Longrightarrow> performScientificOperation M now f w = Some w"
  by (simp add: performScientificOperation_def scientific_functions_def Let_def)

lemma press_history:
  assumes "press M now k w = Some w'" "k \<noteq> ClearHistory"
  shows "history w' =
           (if completes M now k w
            then \<lparr>expression = expression (hd (history w')), result = result (hd (history w')),
                   timestamp = now\<rparr> # take 9 (history w)
            else history w)"
proof (cases k)
  case (Scientific f)
  show ?thesis
  proof (cases "f \<in> set scientific_functions")
    case True
    then obtain res e where "w' = show_result now res e w"
      using scientific_completes[of M now f w w'] assms(1) Scientific by auto
    then show ?thesis using True assms(1) Scientific by simp
  next
    case False
    then show ?thesis using scientific_ignored[OF False, of M now w] assms(1) Scientific by simp
  qed
next
  case Equals
  then show ?thesis using assms
    by (auto simp: performEquals_def Let_def)
qed (use assms in \<open>auto simp: engine_defs Let_def split: option.splits\<close>)

lemma press_none:
  "press M now k w = None \<Longrightarrow> \<not> completes M now k w"
  by (cases k) auto

lemma press_auth:
  assumes "press M now k w = Some w'"
  shows "auth (server w') = auth (server w)"
proof (cases k)
  case (Scientific f)
  then show ?thesis using scientific_cases[of M now f w w'] assms by auto
next
  case Equals
  then show ?thesis using assms by (auto simp: performEquals_def Let_def)
qed (use assms in \<open>auto simp: engine_defs Let_def split: option.splits\<close>)

lemma press_calculations:
  assumes "press M now k w = Some w'"
  shows "length (calculations (server w')) =
           length (calculations (server w))
             + (if completes M now k w \<and> \<not> falsy (auth (server w)) then 1 else 0)"
proof (cases k)
  case (Scientific f)
  show ?thesis
  proof (cases "f \<in> set scientific_functions")
    case True
    then obtain res e where "w' = show_result now res e w"
      using scientific_completes[of M now f w w'] assms(1) Scientific by auto
    then show ?thesis using True assms(1) Scientific by (simp add: show_result_calculations)
  next
    case False
    then show ?thesis using scientific_ignored[OF False, of M now w] assms(1) Scientific by simp
  qed
next
  case Equals
  then show ?thesis using assms
    by (auto simp: performEquals_def Let_def addToHistory_calculations)
qed (use assms in \<open>auto simp: engine_defs Let_def split: option.splits\<close>)

lemma run_history_length:
  assumes "\<forall>e \<in> set evs. snd e \<noteq> ClearHistory"
  shows "length (history (run M evs w)) = min (length (history w) + completed M evs w) 10
         \<or> 10 < length (history w)"
  using assms
proof (induction evs arbitrary: w)
  case Nil
  then show ?case by auto
next
  case (Cons a evs)
  obtain now k where a: "a = (now, k)" by (cases a)
  have k: "k \<noteq> ClearHistory" using Cons.prems a by auto
  show ?case
  proof (cases "press M now k w")
    case None
    then show ?thesis using Cons.IH[of w] Cons.prems press_none[OF None] by (simp add: a)
  next
    case (Some w')
    have h: "length (history w') =
        (if completes M now k w then Suc (min (length (history w)) 9) else length (history w))"
      by (subst press_history[OF Some k]) simp
    have "length (history (run M evs w')) = min (length (history w') + completed M evs w') 10
         \<or> 10 < length (history w')"
      using Cons.IH[of w'] Cons.prems by simp
    then show ?thesis using h Some by (auto simp: a split: if_splits)
  qed
qed

lemma run_store_length:
  "length (calculations (server (run M evs w))) =
     length (calculations (server w))
       + (if falsy (auth (server w)) then 0 else completed M evs w)"
proof (induction evs arbitrary: w)
  case Nil
  then show ?case by simp
next
  case (Cons a evs)
  obtain now k where a: "a = (now, k)" by (cases a)
  show ?case
  proof (cases "press M now k w")
    case None
    then show ?thesis using Cons.IH[of w] press_none[OF None] by (simp add: a)
  next
    case (Some w')
    show ?thesis
      using Cons.IH[of w'] press_calculations[OF Some] press_auth[OF Some] Some
      by (simp add: a)
  qed
qed

lemma reachable_history_length: "reachable M c w \<Longrightarrow> length (history w) \<le> 10"
proof (induction rule: reachable.induct)
  case start
  then show ?case by (simp add: init_def)
next
  case (step w k now w')
  show ?case
  proof (cases "k = ClearHistory")
    case True
    then show ?thesis using step by (auto simp: clearHistory_def)
  next
    case False
    have "length (history w') =
        (if completes M now k w then Suc (min (length (history w)) 9) else length (history w))"
      by (subst press_history[OF step(3) False]) simp
    then show ?thesis using step by (auto split: if_splits)
  qed
qed

lemma getHistory_length: "length (getHistory c) \<le> 20"
  by (simp add: getHistory_def Let_def)

text \<open>
  Claim C10: the local history never holds more than 10 entries: \<open>addToHistory\<close> puts the
  new entry in front of the first 9 entries there are. After any run of keys
  from the initial state that does not clear the local history, its length is the number
  of completed calculations, capped at 10, while the table of a signed-in user has gained
  one document for each of them; the query returns at most 20 documents.
\<close>

theorem local_history_bounded:
  "(reachable M c w \<longrightarrow> length (history w) \<le> 10)
   \<and> ((\<forall>e \<in> set evs. snd e \<noteq> ClearHistory) \<longrightarrow>
        length (history (run M evs (init c))) = min (completed M evs (init c)) 10)
   \<and> (auth c = Some u \<and> u \<noteq> [] \<longrightarrow>
        length (calculations (server (run M evs (init c))))
          = length (calculations c) + completed M evs (init c))
   \<and> length (getHistory (server (run M evs (init c)))) \<le> 20
   \<and> history (addToHistory now e r w0) =
       \<lparr>expression = e, result = r, timestamp = now\<rparr> # take 9 (history w0)"
proof -
  have "history (init c) = []" "server (init c) = c" by (simp_all add: init_def)
  then show ?thesis
    using reachable_history_length[of M c w] run_history_length[of evs M "init c"]
      run_store_length[of M evs "init c"] getHistory_length
    by (auto simp: falsy_def)
qed

lemmas sci_defs = performScientificOperation_def show_result_def scientific_functions_def
  sym_squared_def sym_cubed_def sym_pi_def sym_root_def sym_degree_def

theorem local_history_bounded_witness:
  "(let evs = keys [Scientific ''1/x'', Scientific ''1/x'', Scientific ''1/x'', Scientific ''1/x'',
       Scientific ''1/x'', Scientific ''1/x'', Scientific ''1/x'', Scientific ''1/x'',
       Scientific ''1/x'', Scientific ''1/x'', Scientific ''1/x'']
    in completed example_math evs (init signed_in) = 11
       \<and> length (history (run example_math evs (init signed_in))) = 10
       \<and> auth signed_in = Some ''user1''
       \<and> length (calculations (server (run example_math evs (init signed_in)))) = 11)"
proof -
  let ?evs = "keys [Scientific ''1/x'', Scientific ''1/x'', Scientific ''1/x'', Scientific ''1/x'',
       Scientific ''1/x'', Scientific ''1/x'', Scientific ''1/x'', Scientific ''1/x'',
       Scientific ''1/x'', Scientific ''1/x'', Scientific ''1/x'']"
  have k: "\<forall>e \<in> set ?evs. snd e \<noteq> ClearHistory" by (simp add: keys_def)
  have c: "completed example_math ?evs (init signed_in) = 11"
    by (simp add: keys_def sci_defs Let_def)
  have a: "auth signed_in = Some ''user1''" "calculations signed_in = []"
    by (simp_all add: signed_in_def)
  show ?thesis
    using local_history_bounded [of example_math signed_in "init signed_in" ?evs "''user1''"] k c a
    unfolding Let_def by simp
qed

section \<open>The query\<close>






section \<open>The factorial\<close>

lemma factorial_negative: "js_lt n (Fin 0) \<Longrightarrow> factorial (Suc d) n = Inr (Fin 0)"
  by simp

lemma factorial_zero: "factorial (Suc d) (Fin 0) = Inr (Fin 1)"
  by simp

lemma factorial_one: "factorial (Suc d) (Fin 1) = Inr (Fin 1)"
  by simp
















section \<open>Chained operators\<close>

lemma or_zero_id: "pv \<noteq> NaN \<Longrightarrow> pv \<noteq> NZero \<Longrightarrow> or_zero pv = pv"
  by (cases pv) (auto simp: or_zero_def)

lemma performOperation_chain:
  assumes "previousValue w = Some pv" "operation w = Some op" "op \<noteq> []"
  shows "performOperation M next w =
           w\<lparr>display := js_toString (calculate M (or_zero pv) (parseFloat (display w)) op),
             previousValue := Some (calculate M (or_zero pv) (parseFloat (display w)) op),
             waitingForOperand := True, operation := Some next\<rparr>"
  using assms by (simp add: performOperation_def falsy_def Let_def)

lemma run_chain_20:
  "display (run M (keys [Digit (CHR ''7''), Operator ''+'', Digit (CHR ''3''), Operator sym_times,
      Digit (CHR ''2''), Equals]) (init c)) = ''20''"
proof -
  have s10: "js_toString (Fin 10) = ''10''"
    by (simp add: ts_simps shortest_digits_found shortest_digits_next)
  have s20: "js_toString (Fin 20) = ''20''"
    by (simp add: ts_simps shortest_digits_found shortest_digits_next)
  have p7: "parseFloat ''7'' = Fin 7" by (simp add: pf_simps)
  have p3: "parseFloat ''3'' = Fin 3" by (simp add: pf_simps)
  have p2: "parseFloat ''2'' = Fin 2" by (simp add: pf_simps)
  have a: "js_add (Fin 7) (Fin 3) = Fin 10" by (simp add: js_add_def)
  have m: "js_mul (Fin 10) (Fin 2) = Fin 20" by (simp add: js_mul_def)
  show ?thesis
    by (simp add: keys_def init_def inputNumber_def performOperation_def performEquals_def
        falsy_def or_zero_def calculate_def sym_times_def Let_def p7 p3 p2 a m s10 s20
        del: js_toString.simps(5))
qed

text \<open>
  Claim C2: with a value staged and an operator pending, \<open>performOperation\<close> is to evaluate
  the pending operator on the staged value and the parsed display. The code evaluates it
  on \<open>previousValue || 0\<close>, which is 0 for a staged \<open>NaN\<close>: after the keys 5, sign change,
  backspace the display is a lone minus sign, which \<open>+\<close> stages as \<open>NaN\<close>; with 5 entered,
  the multiplication key shows 5 and stages 5, the sum of 0 and 5, where \<open>NaN + 5\<close> is
  \<open>NaN\<close>. On the same state the equals key, which has no such replacement, shows \<open>NaN\<close>.
\<close>

theorem performOperation_staged_NaN:
  "previousValue (run example_math
      (keys [Digit (CHR ''5''), Negate, Backspace, Operator ''+'', Digit (CHR ''5'')])
      (init signed_in)) = Some NaN
   \<and> operation (run example_math
      (keys [Digit (CHR ''5''), Negate, Backspace, Operator ''+'', Digit (CHR ''5'')])
      (init signed_in)) = Some ''+''
   \<and> display (run example_math
      (keys [Digit (CHR ''5''), Negate, Backspace, Operator ''+'', Digit (CHR ''5'')])
      (init signed_in)) = ''5''
   \<and> js_toString (calculate example_math NaN (parseFloat ''5'') ''+'') = ''NaN''
   \<and> display (run example_math
      (keys [Digit (CHR ''5''), Negate, Backspace, Operator ''+'', Digit (CHR ''5''),
             Operator sym_times])
      (init signed_in)) = ''5''
   \<and> previousValue (run example_math
      (keys [Digit (CHR ''5''), Negate, Backspace, Operator ''+'', Digit (CHR ''5''),
             Operator sym_times])
      (init signed_in)) = Some (Fin 5)
   \<and> display (run example_math
      (keys [Digit (CHR ''5''), Negate, Backspace, Operator ''+'', Digit (CHR ''5''), Equals])
      (init signed_in)) = ''NaN''"
proof -
  have s5: "js_toString (Fin 5) = ''5''"
    by (simp add: ts_simps shortest_digits_found shortest_digits_next)
  have sm5: "js_toString (Fin (- 5)) = ''-5''"
    by (simp add: ts_simps shortest_digits_found shortest_digits_next)
  have p5: "parseFloat ''5'' = Fin 5" by (simp add: pf_simps)
  have pm: "parseFloat ''-'' = NaN" by (simp add: pf_simps)
  have a: "js_add (Fin 0) (Fin 5) = Fin 5" by (simp add: js_add_def)
  have n: "js_add NaN (Fin 5) = NaN" by (simp add: js_add_def)
  show ?thesis
    by (simp add: keys_def init_def inputNumber_def negate_def backspace_def performOperation_def
        performEquals_def falsy_def or_zero_def calculate_def sym_times_def Let_def p5 pm a n s5 sm5
        del: js_toString.simps(5))
qed

text \<open>
  Where the staged value is neither \<open>NaN\<close> nor the negative zero, the pending operator is
  evaluated on the staged value itself; the keys 7, +, 3, times, 2, = end with 20 in the
  display.
\<close>

lemma performOperation_evaluates_pending:
  "(previousValue w = Some pv \<and> operation w = Some op \<and> op \<noteq> [] \<and> pv \<noteq> NaN \<and> pv \<noteq> NZero \<longrightarrow>
      display (performOperation M next w) = js_toString (calculate M pv (parseFloat (display w)) op)
      \<and> previousValue (performOperation M next w) = Some (calculate M pv (parseFloat (display w)) op)
      \<and> operation (performOperation M next w) = Some next
      \<and> waitingForOperand (performOperation M next w)
      \<and> memory (performOperation M next w) = memory w
      \<and> history (performOperation M next w) = history w
      \<and> server (performOperation M next w) = server w)
   \<and> display (run M (keys [Digit (CHR ''7''), Operator ''+'', Digit (CHR ''3''), Operator sym_times,
      Digit (CHR ''2''), Equals]) (init c)) = ''20''"
  using performOperation_chain[of w pv op M "next"] or_zero_id[of pv] run_chain_20[of M c]
  by simp

lemma performOperation_evaluates_pending_example:
  "previousValue (run example_math (keys [Digit (CHR ''7''), Operator ''+'', Digit (CHR ''3'')])
      (init signed_in)) = Some (Fin 7)
   \<and> operation (run example_math (keys [Digit (CHR ''7''), Operator ''+'', Digit (CHR ''3'')])
      (init signed_in)) = Some ''+''
   \<and> display (run example_math
      (keys [Digit (CHR ''7''), Operator ''+'', Digit (CHR ''3''), Operator sym_times])
      (init signed_in)) = ''10''
   \<and> previousValue (run example_math
      (keys [Digit (CHR ''7''), Operator ''+'', Digit (CHR ''3''), Operator sym_times])
      (init signed_in)) = Some (Fin 10)
   \<and> operation (run example_math
      (keys [Digit (CHR ''7''), Operator ''+'', Digit (CHR ''3''), Operator sym_times])
      (init signed_in)) = Some sym_times"
proof -
  let ?w = "run example_math (keys [Digit (CHR ''7''), Operator ''+'', Digit (CHR ''3'')]) (init signed_in)"
  have w: "?w = (init signed_in)\<lparr>display := ''3'', previousValue := Some (Fin 7), operation := Some ''+''\<rparr>"
    by (simp add: keys_def init_def engine_defs pf_simps)
  have r: "run example_math
      (keys [Digit (CHR ''7''), Operator ''+'', Digit (CHR ''3''), Operator sym_times]) (init signed_in)
      = performOperation example_math sym_times ?w"
    by (simp add: keys_def)
  have s10: "js_toString (Fin 10) = ''10''"
    by (simp add: ts_simps shortest_digits_found shortest_digits_next)
  have p3: "parseFloat ''3'' = Fin 3" by (simp add: pf_simps)
  have c: "calculate example_math (Fin 7) (Fin 3) ''+'' = Fin 10"
    by (simp add: calculate_def js_add_def)
  show ?thesis
    using performOperation_evaluates_pending [of ?w "Fin 7" "''+''" example_math sym_times signed_in]
    unfolding r w
    by (simp add: s10 p3 c init_def del: js_toString.simps(5))
qed

section \<open>The display\<close>

subsection \<open>Typed numbers\<close>

lemma typed_zero: "typed ''0''"
  by (simp add: typed_def is_digit_def)

lemma typed_digit: "is_digit c \<Longrightarrow> typed [c]"
  by (auto simp: typed_def is_digit_def)

lemma typed_zero_point: "typed ''0.''"
  by (simp add: typed_def is_digit_def)

lemma typed_append_digit: "typed s \<Longrightarrow> is_digit c \<Longrightarrow> typed (s @ [c])"
  by (auto simp: typed_def is_digit_def)

lemma count_list_0: "x \<notin> set xs \<Longrightarrow> count_list xs x = 0"
  by (induction xs) auto

lemma typed_append_point: "typed s \<Longrightarrow> CHR ''.'' \<notin> set s \<Longrightarrow> typed (s @ ''.'')"
  by (auto simp: typed_def count_list_0)

lemma count_list_butlast: "count_list (butlast xs) x \<le> count_list xs x"
  by (induction xs) auto

lemma typed_butlast: "typed s \<Longrightarrow> butlast s \<noteq> [] \<Longrightarrow> typed (butlast s)"
proof -
  assume t: "typed s" and b: "butlast s \<noteq> []"
  have "hd (butlast s) = hd s" using b by (cases s) auto
  moreover have "set (butlast s) \<subseteq> set s" by (auto dest: in_set_butlastD)
  moreover have "count_list (butlast s) (CHR ''.'') \<le> count_list s (CHR ''.'')"
    by (rule count_list_butlast)
  ultimately show ?thesis using t b unfolding typed_def by (auto simp: subset_iff)
qed

lemma typed_decimal_numeral: "typed s \<Longrightarrow> decimal_numeral s"
proof -
  assume t: "typed s"
  then obtain c cs where s: "s = c # cs" by (cases s) (auto simp: typed_def)
  have c: "is_digit c" using t by (simp add: typed_def s)
  then have "c \<noteq> CHR ''-''" by (auto simp: is_digit_def)
  then show ?thesis using t c
    by (auto simp: decimal_numeral_def typed_def s list_all_iff list_ex_iff)
qed

lemma press_typed:
  assumes "typed (display w)" "typing_key k" "press M now k w = Some w'"
  shows "typed (display w')"
proof (cases k)
  case (Digit c)
  then show ?thesis using assms
    by (auto simp: inputNumber_def typed_digit typed_append_digit)
next
  case Decimal
  then show ?thesis using assms
    by (auto simp: inputDecimal_def typed_zero_point typed_append_point simp del: append.simps)
next
  case Clear
  then show ?thesis using assms by (auto simp: clear_def typed_zero)
next
  case ClearEntry
  then show ?thesis using assms by (auto simp: clearEntry_def typed_zero)
next
  case Backspace
  then show ?thesis using assms by (auto simp: backspace_def typed_zero typed_butlast)
qed (use assms in auto)

lemma press_typing_total: "typing_key k \<Longrightarrow> press M now k w \<noteq> None"
  by (cases k) auto

lemma run_typed:
  "typed (display w) \<Longrightarrow> \<forall>e \<in> set evs. typing_key (snd e) \<Longrightarrow> typed (display (run M evs w))"
proof (induction evs arbitrary: w)
  case Nil
  then show ?case by simp
next
  case (Cons a evs)
  obtain now k where a: "a = (now, k)" by (cases a)
  have k: "typing_key k" using Cons.prems(2) a by simp
  obtain w' where w': "press M now k w = Some w'"
    using press_typing_total[OF k, of M now w] by auto
  have "typed (display w')" using press_typed[OF Cons.prems(1) k w'] .
  then have "typed (display (run M evs w'))" using Cons.IH Cons.prems(2) by simp
  then show ?case using w' by (simp add: a)
qed

subsection \<open>Stringified numbers\<close>

lemma digit_number_char: "is_digit c \<Longrightarrow> number_char c"
  by (auto simp: is_digit_def number_char_def)

lemma digit_char_digit: "d < 10 \<Longrightarrow> is_digit (digit_char d)"
proof -
  assume "d < 10"
  then have "d < length ''0123456789''" by simp
  then have "''0123456789'' ! d \<in> set ''0123456789''" by (rule nth_mem)
  then show ?thesis unfolding digit_char_def is_digit_def .
qed

lemma to_digits_digits: "to_digits n \<noteq> [] \<and> (\<forall>c \<in> set (to_digits n). is_digit c)"
proof (induction n rule: to_digits.induct)
  case (1 n)
  show ?case
  proof (cases "n < 10")
    case True
    then show ?thesis by (subst (1 2) to_digits.simps) (simp add: digit_char_digit)
  next
    case False
    have "n mod 10 < 10" by simp
    then have "is_digit (digit_char (n mod 10))" by (rule digit_char_digit)
    then show ?thesis using 1 False by (subst (1 2) to_digits.simps) auto
  qed
qed

lemma written_append: "written a \<Longrightarrow> \<forall>c \<in> set b. number_char c \<Longrightarrow> written (a @ b)"
  by (auto simp: written_def)

lemma format_digits_written:
  assumes "ds \<noteq> []" "\<forall>c \<in> set ds. is_digit c"
  shows "written (format_digits ds n)"
proof -
  have d: "\<forall>c \<in> set ds. number_char c" using assms(2) digit_number_char by blast
  have t: "\<forall>c \<in> set (take k ds). number_char c" for k using d by (auto dest: in_set_takeD)
  have r: "\<forall>c \<in> set (drop k ds). number_char c" for k using d by (auto dest: in_set_dropD)
  have e: "\<forall>c \<in> set (to_digits k). number_char c" for k
    using to_digits_digits[of k] digit_number_char by blast
  have z: "number_char (CHR ''0'')" "number_char (CHR ''.'')" "number_char (CHR ''e'')"
    "number_char (CHR ''-'')" "number_char (CHR ''+'')"
    by (simp_all add: number_char_def)
  show ?thesis
    using assms(1) d t r e z
    by (auto simp: format_digits_def written_def Let_def)
qed

lemma positive_toString_written: "written (positive_toString q)"
proof -
  obtain s n where sn: "shortest_digits q (ilog 10 q + 1) 1 = (s, n)"
    by (cases "shortest_digits q (ilog 10 q + 1) 1")
  have "positive_toString q = format_digits (to_digits s) n"
    by (simp only: positive_toString_def sn Let_def prod.case)
  then show ?thesis
    using to_digits_digits[of s] format_digits_written[of "to_digits s" n] by simp
qed

lemma js_toString_written: "written (js_toString x)"
proof (cases x)
  case (Fin q)
  have m: "written (''-'' @ positive_toString (- q))"
    using positive_toString_written[of "- q"] by (auto simp: written_def number_char_def)
  show ?thesis using Fin m positive_toString_written[of q]
    by (auto simp: written_def number_char_def)
qed (auto simp: written_def number_char_def)

lemma written_cases:
  "written d \<Longrightarrow> d' = d \<or> (\<exists>x. d' = js_toString x) \<Longrightarrow> written d'"
  using js_toString_written by auto

lemma performOperation_display:
  "display (performOperation M op w) = display w
   \<or> (\<exists>x. display (performOperation M op w) = js_toString x)"
proof (cases "previousValue w")
  case None
  then show ?thesis by (simp add: performOperation_def Let_def)
next
  case (Some pv)
  show ?thesis
  proof (cases "falsy (operation w)")
    case True
    then show ?thesis using Some by (simp add: performOperation_def Let_def)
  next
    case False
    then have "display (performOperation M op w) =
        js_toString (calculate M (or_zero pv) (parseFloat (display w)) (the (operation w)))"
      using Some by (simp add: performOperation_def Let_def)
    then show ?thesis by blast
  qed
qed

lemma performEquals_display:
  "display (performEquals M now w) = display w
   \<or> (\<exists>x. display (performEquals M now w) = js_toString x)"
proof (cases "previousValue w \<noteq> None \<and> \<not> falsy (operation w)")
  case True
  then have "display (performEquals M now w) = js_toString (calculate M (the (previousValue w))
      (parseFloat (display w)) (the (operation w)))"
    by (simp add: performEquals_def Let_def)
  then show ?thesis by blast
next
  case False
  then have "performEquals M now w = w" by (auto simp: performEquals_def Let_def)
  then show ?thesis by simp
qed

lemma scientific_display:
  assumes "performScientificOperation M now f w = Some w'"
  shows "display w' = display w \<or> (\<exists>x. display w' = js_toString x)"
proof -
  from scientific_cases[OF assms]
  have "w' = w \<or> (\<exists>res e. w' = show_result now res e w)" by blast
  then show ?thesis
  proof
    assume "w' = w"
    then show ?thesis by simp
  next
    assume "\<exists>res e. w' = show_result now res e w"
    then obtain res e where "w' = show_result now res e w" by blast
    then have "display w' = js_toString res" by simp
    then show ?thesis by blast
  qed
qed

lemma press_written:
  assumes "written (display w)" "on_keypad k" "press M now k w = Some w'"
  shows "written (display w')"
proof (cases k)
  case (Digit c)
  then have c: "number_char c" using assms(2) digit_number_char by simp
  have "display w' = [c] \<or> display w' = display w @ [c]"
    using assms(3) Digit by (auto simp: inputNumber_def split: if_splits)
  then show ?thesis using assms(1) c by (auto simp: written_def)
next
  case Decimal
  have p: "number_char (CHR ''.'')" "number_char (CHR ''0'')" by (simp_all add: number_char_def)
  have "display w' = ''0.'' \<or> display w' = display w @ ''.'' \<or> display w' = display w"
    using assms(3) Decimal by (auto simp: inputDecimal_def split: if_splits)
  then show ?thesis using assms(1) p by (auto simp: written_def)
next
  case Clear
  then have "display w' = ''0''" using assms(3) by (auto simp: clear_def)
  then show ?thesis by (simp add: written_def number_char_def)
next
  case ClearEntry
  then have "display w' = ''0''" using assms(3) by (auto simp: clearEntry_def)
  then show ?thesis by (simp add: written_def number_char_def)
next
  case Backspace
  then have "display w' = ''0'' \<or> (display w' = butlast (display w) \<and> butlast (display w) \<noteq> [])"
    using assms(3) by (auto simp: backspace_def)
  then show ?thesis
  proof
    assume "display w' = ''0''"
    then show ?thesis by (simp add: written_def number_char_def)
  next
    assume b: "display w' = butlast (display w) \<and> butlast (display w) \<noteq> []"
    have "\<forall>c \<in> set (butlast (display w)). number_char c"
      using assms(1) by (auto simp: written_def dest: in_set_butlastD)
    then show ?thesis using b by (simp add: written_def)
  qed
next
  case Negate
  then have "display w' = js_toString (js_neg (parseFloat (display w)))"
    using assms(3) by (auto simp: negate_def)
  then show ?thesis using js_toString_written by simp
next
  case (Operator op)
  then have "w' = performOperation M op w" using assms(3) by simp
  then show ?thesis using written_cases[OF assms(1) performOperation_display[of M op w]] by simp
next
  case (Scientific f)
  then have "performScientificOperation M now f w = Some w'" using assms(3) by simp
  from written_cases[OF assms(1) scientific_display[OF this]] show ?thesis .
next
  case Equals
  then have "w' = performEquals M now w" using assms(3) by simp
  then show ?thesis using written_cases[OF assms(1) performEquals_display[of M now w]] by simp
next
  case MC
  then show ?thesis using assms by (auto simp: memoryClear_def)
next
  case MR
  then have "display w' = js_toString (memory w)" using assms(3) by (auto simp: memoryRecall_def)
  then show ?thesis using js_toString_written by simp
next
  case MS
  then show ?thesis using assms by (auto simp: memoryStore_def)
next
  case MPlus
  then show ?thesis using assms by (auto simp: memoryAdd_def)
next
  case ToggleAngle
  then show ?thesis using assms by (auto simp: toggleAngleMode_def)
next
  case ClearHistory
  then show ?thesis using assms by (auto simp: clearHistory_def)
qed

lemma reachable_written: "reachable M c w \<Longrightarrow> written (display w)"
proof (induction rule: reachable.induct)
  case start
  then show ?case by (simp add: init_def written_def number_char_def)
next
  case (step w k now w')
  then show ?case using press_written by blast
qed

text \<open>
  Claim C5, as stated (the display is a decimal numeral in every reachable state), fails:
  the reciprocal key at the initial display 0 shows \<open>Infinity\<close>.
\<close>

theorem display_infinity_counterexample:
  "reachable example_math signed_in
     (run example_math (keys [Scientific ''1/x'']) (init signed_in))
   \<and> display (run example_math (keys [Scientific ''1/x'']) (init signed_in)) = ''Infinity''
   \<and> \<not> decimal_numeral (display (run example_math (keys [Scientific ''1/x'']) (init signed_in)))"
proof -
  have r: "reachable example_math signed_in
     (run example_math (keys [Scientific ''1/x'']) (init signed_in))"
    by (rule reachable_run[OF reachable.start])
      (simp add: keys_def scientific_functions_def)
  have p: "parseFloat ''0'' = Fin 0" by (simp add: pf_simps)
  have d: "display (run example_math (keys [Scientific ''1/x'']) (init signed_in)) = ''Infinity''"
    by (simp add: keys_def init_def sci_defs Let_def p js_div_def signed_inf_def)
  have "\<not> decimal_numeral ''Infinity''"
    by (simp add: decimal_numeral_def is_digit_def)
  then show ?thesis using r d by simp
qed

subsection \<open>The shape of the display\<close>

lemma number_char_cases: "number_char c \<Longrightarrow> plain_char c \<or> result_char c"
  by (auto simp: number_char_def plain_char_def result_char_def is_digit_def)

lemma digit_plain: "is_digit c \<Longrightarrow> plain_char c \<and> c \<noteq> CHR ''-'' \<and> c \<noteq> CHR ''.''"
  by (auto simp: plain_char_def is_digit_def)

lemma all_one:
  "\<forall>c \<in> set t. c = x \<Longrightarrow> count_list t x \<le> 1 \<Longrightarrow> t = [] \<or> t = [x]"
proof (cases t)
  case Nil
  then show ?thesis by simp
next
  case (Cons a u)
  assume a: "\<forall>c \<in> set t. c = x" and c: "count_list t x \<le> 1"
  have "u = []"
  proof (cases u)
    case Nil
    then show ?thesis .
  next
    case (Cons b v)
    then show ?thesis using a c \<open>t = a # u\<close> by auto
  qed
  then show ?thesis using a Cons by auto
qed

lemma shown_dichotomy:
  assumes "shown s"
  shows "decimal_numeral s \<or> list_ex result_char s \<or> s = ''-'' \<or> s = ''-.''"
proof (cases "\<forall>c \<in> set s. plain_char c")
  case False
  then obtain c where c: "c \<in> set s" "\<not> plain_char c" by blast
  then have "number_char c" using assms by (simp add: shown_def)
  then have "result_char c" using number_char_cases c(2) by blast
  then show ?thesis using c(1) by (auto simp: list_ex_iff)
next
  case True
  then have tw: "takeWhile plain_char s = s" by (simp add: takeWhile_eq_all_conv)
  obtain c t where s: "s = c # t" using assms by (cases s) (auto simp: shown_def)
  have m: "CHR ''-'' \<notin> set t" using assms tw by (simp add: shown_def s)
  have body: "\<forall>x \<in> set t. is_digit x \<or> x = CHR ''.''"
    using True m by (auto simp: s plain_char_def)
  have cnt: "count_list s (CHR ''.'') \<le> 1" using assms by (simp add: shown_def)
  show ?thesis
  proof (cases "c = CHR ''-''")
    case minus: True
    have ct: "count_list t (CHR ''.'') \<le> 1" using cnt by (simp add: s minus)
    show ?thesis
    proof (cases "\<exists>x \<in> set t. is_digit x")
      case True
      then show ?thesis using body ct
        by (auto simp: decimal_numeral_def s minus list_all_iff list_ex_iff)
    next
      case False
      then have "\<forall>x \<in> set t. x = CHR ''.''" using body by blast
      from all_one[OF this ct] show ?thesis by (auto simp: s minus)
    qed
  next
    case False
    have "c \<noteq> CHR ''.''" using assms by (simp add: shown_def s)
    then have d: "is_digit c" using True False by (auto simp: s plain_char_def)
    then show ?thesis using body cnt False
      by (auto simp: decimal_numeral_def s list_all_iff list_ex_iff)
  qed
qed

lemma shown_digit: "is_digit c \<Longrightarrow> shown [c]"
  using digit_plain[of c] by (auto simp: shown_def digit_number_char)

lemma shown_zero: "shown ''0''"
  by (rule shown_digit) (simp add: is_digit_def)

lemma shown_zero_point: "shown ''0.''"
  by (simp add: shown_def number_char_def plain_char_def is_digit_def)

lemma takeWhile_snoc_tl:
  assumes "s \<noteq> []" "x \<notin> set (tl (takeWhile P s))" "c \<noteq> x"
  shows "x \<notin> set (tl (takeWhile P (s @ [c])))"
proof (cases "\<forall>y \<in> set s. P y")
  case True
  then have "takeWhile P (s @ [c]) = s @ takeWhile P [c]" by (simp add: takeWhile_append2)
  moreover have "takeWhile P s = s" using True by (simp add: takeWhile_eq_all_conv)
  ultimately show ?thesis using assms by (cases s) auto
next
  case False
  then obtain y where "y \<in> set s" "\<not> P y" by blast
  then have "takeWhile P (s @ [c]) = takeWhile P s" by (rule takeWhile_append1)
  then show ?thesis using assms by simp
qed

lemma shown_append_digit: "shown s \<Longrightarrow> is_digit c \<Longrightarrow> shown (s @ [c])"
  using digit_plain[of c] takeWhile_snoc_tl[of s "CHR ''-''" plain_char c]
  by (auto simp: shown_def digit_number_char)

lemma shown_append_point: "shown s \<Longrightarrow> CHR ''.'' \<notin> set s \<Longrightarrow> shown (s @ ''.'')"
  using takeWhile_snoc_tl[of s "CHR ''-''" plain_char "CHR ''.''"]
  by (auto simp: shown_def count_list_0 number_char_def)

lemma takeWhile_butlast:
  "takeWhile P (butlast s) = (if \<forall>y \<in> set s. P y then butlast s else takeWhile P s)"
proof (induction s rule: rev_induct)
  case Nil
  then show ?case by simp
next
  case (snoc x xs)
  show ?case
  proof (cases "\<forall>y \<in> set xs. P y")
    case True
    then have "takeWhile P xs = xs" by (simp add: takeWhile_eq_all_conv)
    moreover have "takeWhile P (xs @ [x]) = xs @ takeWhile P [x]"
      using True by (simp add: takeWhile_append2)
    ultimately show ?thesis using True by auto
  next
    case False
    then obtain y where "y \<in> set xs" "\<not> P y" by blast
    then have "takeWhile P (xs @ [x]) = takeWhile P xs" by (rule takeWhile_append1)
    then show ?thesis using False by auto
  qed
qed

lemma shown_butlast: "shown s \<Longrightarrow> butlast s \<noteq> [] \<Longrightarrow> shown (butlast s)"
proof -
  assume t: "shown s" and b: "butlast s \<noteq> []"
  have h: "hd (butlast s) = hd s" using b by (cases s) auto
  have n: "\<forall>c \<in> set (butlast s). number_char c"
    using t by (auto simp: shown_def dest: in_set_butlastD)
  have c: "count_list (butlast s) (CHR ''.'') \<le> 1"
    using t count_list_butlast[of s "CHR ''.''"] by (simp add: shown_def)
  have m: "CHR ''-'' \<notin> set (tl (takeWhile plain_char (butlast s)))"
  proof (cases "\<forall>y \<in> set s. plain_char y")
    case True
    then have tw: "takeWhile plain_char s = s" by (simp add: takeWhile_eq_all_conv)
    have "CHR ''-'' \<notin> set (tl (takeWhile plain_char s))" using t by (simp add: shown_def)
    then have "CHR ''-'' \<notin> set (tl s)" unfolding tw .
    moreover have "set (tl (butlast s)) \<subseteq> set (tl s)"
      by (metis butlast_tl in_set_butlastD subsetI)
    ultimately show ?thesis using True by (auto simp: takeWhile_butlast)
  next
    case False
    then have "takeWhile plain_char (butlast s) = takeWhile plain_char s"
      by (subst takeWhile_butlast) auto
    then show ?thesis using t by (simp add: shown_def)
  qed
  show ?thesis using b h n c m t by (simp add: shown_def)
qed

lemma format_digits_shape:
  assumes "ds \<noteq> []" "\<forall>c \<in> set ds. is_digit c"
  shows "\<exists>a b. format_digits ds n = a @ b \<and> a \<noteq> [] \<and> is_digit (hd a)
           \<and> (\<forall>c \<in> set a. is_digit c \<or> c = CHR ''.'') \<and> count_list a (CHR ''.'') \<le> 1
           \<and> (b = [] \<or> (\<exists>e. b = CHR ''e'' # e \<and> CHR ''.'' \<notin> set e))"
proof -
  have nd: "CHR ''.'' \<notin> set ds" using assms(2) digit_plain by blast
  have hd: "is_digit (hd ds)" using assms by (cases ds) auto
  have z: "is_digit (CHR ''0'')" by (simp add: is_digit_def)
  have e: "CHR ''.'' \<notin> set (to_digits k)" for k
    using to_digits_digits[of k] digit_plain by blast
  let ?k = "int (length ds)"
  let ?es = "(if n - 1 < 0 then ''-'' else ''+'') @ to_digits (nat \<bar>n - 1\<bar>)"
  have es: "CHR ''.'' \<notin> set ?es" using e by auto
  show ?thesis
  proof (cases "?k \<le> n \<and> n \<le> 21")
    case True
    let ?a = "ds @ replicate (nat (n - ?k)) (CHR ''0'')"
    have f: "format_digits ds n = ?a @ []" using True by (simp add: format_digits_def)
    have 1: "?a \<noteq> []" using assms(1) by simp
    have 2: "is_digit (hd ?a)" using assms(1) hd by simp
    have 3: "\<forall>c \<in> set ?a. is_digit c \<or> c = CHR ''.''" using assms(2) z by auto
    have 4: "count_list ?a (CHR ''.'') \<le> 1" using nd by (simp add: count_list_0)
    show ?thesis
      by (rule exI[of _ ?a], rule exI[of _ "[]"]) (use f 1 2 3 4 in simp)
  next
    case nint: False
    show ?thesis
    proof (cases "0 < n \<and> n \<le> 21")
      case True
      let ?a = "take (nat n) ds @ ''.'' @ drop (nat n) ds"
      have f: "format_digits ds n = ?a @ []" using nint True by (simp add: format_digits_def)
      have tk: "take (nat n) ds \<noteq> []" using True assms(1) by simp
      have 1: "?a \<noteq> []" by simp
      have 2: "is_digit (hd ?a)" using tk hd by (simp add: hd_append)
      have 3: "\<forall>c \<in> set ?a. is_digit c \<or> c = CHR ''.''"
        using assms(2) by (auto dest: in_set_takeD in_set_dropD)
      have "CHR ''.'' \<notin> set (take (nat n) ds)" "CHR ''.'' \<notin> set (drop (nat n) ds)"
        using nd by (auto dest: in_set_takeD in_set_dropD)
      then have 4: "count_list ?a (CHR ''.'') \<le> 1" by (simp add: count_list_0)
      show ?thesis
        by (rule exI[of _ ?a], rule exI[of _ "[]"]) (use f 1 2 3 4 in simp)
    next
      case nfrac: False
      show ?thesis
      proof (cases "- 6 < n \<and> n \<le> 0")
        case True
        let ?a = "''0.'' @ replicate (nat (- n)) (CHR ''0'') @ ds"
        have f: "format_digits ds n = ?a @ []"
          using nint nfrac True by (simp add: format_digits_def)
        have 1: "?a \<noteq> []" by simp
        have 2: "is_digit (hd ?a)" using z by simp
        have 3: "\<forall>c \<in> set ?a. is_digit c \<or> c = CHR ''.''" using assms(2) z by auto
        have 4: "count_list ?a (CHR ''.'') \<le> 1" using nd by (simp add: count_list_0)
        show ?thesis
          by (rule exI[of _ ?a], rule exI[of _ "[]"]) (use f 1 2 3 4 in simp)
      next
        case nsmall: False
        show ?thesis
        proof (cases "?k = 1")
          case True
          have f: "format_digits ds n = ds @ (CHR ''e'' # ?es)"
            by (simp only: format_digits_def Let_def nint nfrac nsmall if_False append.simps,
                simp only: True if_True simp_thms)
          have 3: "\<forall>c \<in> set ds. is_digit c \<or> c = CHR ''.''" using assms(2) by auto
          have 4: "count_list ds (CHR ''.'') \<le> 1" using nd by (simp add: count_list_0)
          show ?thesis
            by (rule exI[of _ ds], rule exI[of _ "CHR ''e'' # ?es"])
              (use f assms(1) hd 3 4 es in simp)
        next
          case False
          let ?a = "take 1 ds @ ''.'' @ drop 1 ds"
          have f: "format_digits ds n = ?a @ (CHR ''e'' # ?es)"
            by (simp only: format_digits_def Let_def nint nfrac nsmall False if_False if_True
                append.simps append_assoc)
          have tk: "take 1 ds \<noteq> []" using assms(1) by simp
          have 1: "?a \<noteq> []" by simp
          have 2: "is_digit (hd ?a)" using tk hd by (simp add: hd_append)
          have 3: "\<forall>c \<in> set ?a. is_digit c \<or> c = CHR ''.''"
            using assms(2) by (auto dest: in_set_takeD in_set_dropD)
          have "CHR ''.'' \<notin> set (take 1 ds)" "CHR ''.'' \<notin> set (drop 1 ds)"
            using nd by (auto dest: in_set_takeD in_set_dropD)
          then have 4: "count_list ?a (CHR ''.'') \<le> 1" by (simp add: count_list_0)
          show ?thesis
            by (rule exI[of _ ?a], rule exI[of _ "CHR ''e'' # ?es"]) (use f 1 2 3 4 es in simp)
        qed
      qed
    qed
  qed
qed

lemma shape_shown:
  assumes "a \<noteq> []" "is_digit (hd a)" "\<forall>c \<in> set a. is_digit c \<or> c = CHR ''.''"
    "count_list a (CHR ''.'') \<le> 1" "b = [] \<or> (\<exists>e. b = CHR ''e'' # e \<and> CHR ''.'' \<notin> set e)"
    "\<forall>c \<in> set (a @ b). number_char c"
  shows "shown (a @ b)" "shown (CHR ''-'' # a @ b)"
proof -
  have pa: "\<forall>c \<in> set a. plain_char c" using assms(3) by (auto simp: plain_char_def)
  have ma: "CHR ''-'' \<notin> set a" using assms(3) by (auto dest: digit_plain)
  have ne: "\<not> plain_char (CHR ''e'')" by (simp add: plain_char_def is_digit_def)
  have tw: "takeWhile plain_char (a @ b) = a"
  proof (cases "b = []")
    case True
    then show ?thesis using pa by (simp add: takeWhile_eq_all_conv)
  next
    case False
    then obtain e where "b = CHR ''e'' # e" using assms(5) by blast
    then show ?thesis using pa ne by (simp add: takeWhile_append2)
  qed
  have cb: "count_list b (CHR ''.'') = 0" using assms(5) by (auto simp: count_list_0)
  have h: "hd (a @ b) = hd a" using assms(1) by simp
  have hp: "hd a \<noteq> CHR ''.''" using assms(2) digit_plain by blast
  show "shown (a @ b)"
    using assms(1,4,6) h hp cb ma by (simp add: shown_def tw) (meson list.set_sel(2))
  have "takeWhile plain_char (CHR ''-'' # a @ b) = CHR ''-'' # a"
    using tw by (simp add: plain_char_def)
  then show "shown (CHR ''-'' # a @ b)"
    using assms(4,6) cb ma by (simp add: shown_def number_char_def)
qed

lemma positive_toString_shown:
  "shown (positive_toString q)" "shown (CHR ''-'' # positive_toString q)"
proof -
  obtain s n where sn: "shortest_digits q (ilog 10 q + 1) 1 = (s, n)"
    by (cases "shortest_digits q (ilog 10 q + 1) 1")
  have p: "positive_toString q = format_digits (to_digits s) n"
    by (simp only: positive_toString_def sn Let_def prod.case)
  from format_digits_shape[of "to_digits s" n] to_digits_digits[of s]
  obtain a b where ab: "format_digits (to_digits s) n = a @ b" "a \<noteq> []" "is_digit (hd a)"
      "\<forall>c \<in> set a. is_digit c \<or> c = CHR ''.''" "count_list a (CHR ''.'') \<le> 1"
      "b = [] \<or> (\<exists>e. b = CHR ''e'' # e \<and> CHR ''.'' \<notin> set e)"
    by blast
  have w: "\<forall>c \<in> set (a @ b). number_char c"
    using positive_toString_written[of q] by (simp add: written_def p ab(1))
  show "shown (positive_toString q)" "shown (CHR ''-'' # positive_toString q)"
    unfolding p ab(1) using shape_shown[OF ab(2-6) w] by simp_all
qed

lemma js_toString_shown: "shown (js_toString x)"
proof (cases x)
  case NaN
  then show ?thesis by (simp add: shown_def number_char_def plain_char_def is_digit_def)
next
  case PInf
  then show ?thesis by (simp add: shown_def number_char_def plain_char_def is_digit_def)
next
  case NInf
  then show ?thesis by (simp add: shown_def number_char_def plain_char_def is_digit_def)
next
  case NZero
  then show ?thesis by (simp add: shown_zero)
next
  case (Fin q)
  then show ?thesis using positive_toString_shown[of q] positive_toString_shown[of "- q"]
    by (simp add: shown_zero)
qed

lemma press_shown:
  assumes "shown (display w)" "on_keypad k" "press M now k w = Some w'"
  shows "shown (display w')"
proof (cases k)
  case (Digit c)
  then have c: "is_digit c" using assms(2) by simp
  have "display w' = [c] \<or> display w' = display w @ [c]"
    using assms(3) Digit by (auto simp: inputNumber_def split: if_splits)
  then show ?thesis using assms(1) c shown_digit shown_append_digit by auto
next
  case Decimal
  have "display w' = ''0.''
      \<or> (CHR ''.'' \<notin> set (display w) \<and> display w' = display w @ ''.'')
      \<or> display w' = display w"
    using assms(3) Decimal by (auto simp: inputDecimal_def split: if_splits)
  then show ?thesis using assms(1) shown_zero_point shown_append_point by auto
next
  case Clear
  then have "display w' = ''0''" using assms(3) by (auto simp: clear_def)
  then show ?thesis by (simp add: shown_zero)
next
  case ClearEntry
  then have "display w' = ''0''" using assms(3) by (auto simp: clearEntry_def)
  then show ?thesis by (simp add: shown_zero)
next
  case Backspace
  then have "display w' = ''0'' \<or> (display w' = butlast (display w) \<and> butlast (display w) \<noteq> [])"
    using assms(3) by (auto simp: backspace_def)
  then show ?thesis using assms(1) shown_zero shown_butlast by auto
next
  case Negate
  then have "display w' = js_toString (js_neg (parseFloat (display w)))"
    using assms(3) by (auto simp: negate_def)
  then show ?thesis using js_toString_shown by simp
next
  case (Operator op)
  then have "w' = performOperation M op w" using assms(3) by simp
  then show ?thesis using performOperation_display[of M op w] assms(1) js_toString_shown by auto
next
  case (Scientific f)
  then have "performScientificOperation M now f w = Some w'" using assms(3) by simp
  from scientific_display[OF this] show ?thesis using assms(1) js_toString_shown by auto
next
  case Equals
  then have "w' = performEquals M now w" using assms(3) by simp
  then show ?thesis using performEquals_display[of M now w] assms(1) js_toString_shown by auto
next
  case MC
  then show ?thesis using assms by (auto simp: memoryClear_def)
next
  case MR
  then have "display w' = js_toString (memory w)" using assms(3) by (auto simp: memoryRecall_def)
  then show ?thesis using js_toString_shown by simp
next
  case MS
  then show ?thesis using assms by (auto simp: memoryStore_def)
next
  case MPlus
  then show ?thesis using assms by (auto simp: memoryAdd_def)
next
  case ToggleAngle
  then show ?thesis using assms by (auto simp: toggleAngleMode_def)
next
  case ClearHistory
  then show ?thesis using assms by (auto simp: clearHistory_def)
qed

lemma reachable_shown: "reachable M c w \<Longrightarrow> shown (display w)"
proof (induction rule: reachable.induct)
  case start
  then show ?case by (simp add: init_def shown_zero)
next
  case (step w k now w')
  then show ?case using press_shown by blast
qed

text \<open>
  Claim C5, amended: in every state reachable from the initial one by the keys of the
  keypad the display is not empty, is written with the characters of a stringified number
  and has at most one decimal point; and it is a decimal numeral (digits, at most one
  decimal point, optional leading minus) unless it holds a character that only a
  stringified result has (a letter of \<open>NaN\<close> or \<open>Infinity\<close>, or the \<open>e\<close> or \<open>+\<close> of the
  exponent notation) or is what backspace leaves of a negative number, a lone minus sign
  with or without a typed point. After any run of the digit, decimal point, backspace,
  clear and clear-entry keys from the initial state it is a decimal numeral.
\<close>

theorem display_is_written_number:
  "(reachable M c w \<longrightarrow>
      display w \<noteq> [] \<and> list_all number_char (display w)
      \<and> count_list (display w) (CHR ''.'') \<le> 1
      \<and> (decimal_numeral (display w) \<or> list_ex result_char (display w)
           \<or> display w = ''-'' \<or> display w = ''-.''))
   \<and> ((\<forall>e \<in> set evs. typing_key (snd e)) \<longrightarrow> decimal_numeral (display (run M evs (init c))))"
proof -
  have "typed (display (init c))" by (simp add: init_def typed_zero)
  then have 1: "(\<forall>e \<in> set evs. typing_key (snd e)) \<longrightarrow> decimal_numeral (display (run M evs (init c)))"
    using run_typed[of "init c" evs M] typed_decimal_numeral by blast
  have 2: "reachable M c w \<longrightarrow>
      display w \<noteq> [] \<and> list_all number_char (display w)
      \<and> count_list (display w) (CHR ''.'') \<le> 1
      \<and> (decimal_numeral (display w) \<or> list_ex result_char (display w)
           \<or> display w = ''-'' \<or> display w = ''-.'')"
  proof
    assume "reachable M c w"
    then have s: "shown (display w)" by (rule reachable_shown)
    from shown_dichotomy[OF s] s
    show "display w \<noteq> [] \<and> list_all number_char (display w)
      \<and> count_list (display w) (CHR ''.'') \<le> 1
      \<and> (decimal_numeral (display w) \<or> list_ex result_char (display w)
           \<or> display w = ''-'' \<or> display w = ''-.'')"
      by (simp add: shown_def list_all_iff)
  qed
  show ?thesis using 1 2 by blast
qed

theorem display_is_written_number_witness:
  "reachable example_math signed_in
      (run example_math (keys [Digit (CHR ''7''), Operator ''+'', Decimal]) (init signed_in))
   \<and> display (run example_math (keys [Digit (CHR ''7''), Operator ''+'', Decimal]) (init signed_in))
       = ''0.''
   \<and> decimal_numeral
       (display (run example_math (keys [Digit (CHR ''7''), Operator ''+'', Decimal]) (init signed_in)))
   \<and> reachable example_math signed_in
        (run example_math (keys [Scientific ''1/x'']) (init signed_in))
   \<and> list_ex result_char (display (run example_math (keys [Scientific ''1/x'']) (init signed_in)))
   \<and> count_list (display (run example_math (keys [Scientific ''1/x'']) (init signed_in))) (CHR ''.'') \<le> 1
   \<and> reachable example_math signed_in
        (run example_math (keys [Digit (CHR ''5''), Negate, Backspace]) (init signed_in))
   \<and> display (run example_math (keys [Digit (CHR ''5''), Negate, Backspace]) (init signed_in)) = ''-''
   \<and> decimal_numeral (display (run example_math
      (keys [Digit (CHR ''1''), Digit (CHR ''2''), Digit (CHR ''3''), Decimal, Digit (CHR ''5''),
             Decimal, Backspace]) (init signed_in)))
   \<and> display (run example_math
      (keys [Digit (CHR ''1''), Digit (CHR ''2''), Digit (CHR ''3''), Decimal, Digit (CHR ''5''),
             Decimal, Backspace]) (init signed_in)) = ''123.''"
proof -
  let ?evs = "keys [Digit (CHR ''1''), Digit (CHR ''2''), Digit (CHR ''3''), Decimal, Digit (CHR ''5''),
             Decimal, Backspace]"
  let ?w1 = "run example_math (keys [Digit (CHR ''7''), Operator ''+'', Decimal]) (init signed_in)"
  let ?w2 = "run example_math (keys [Scientific ''1/x'']) (init signed_in)"
  let ?w3 = "run example_math (keys [Digit (CHR ''5''), Negate, Backspace]) (init signed_in)"
  have k: "\<forall>e \<in> set ?evs. typing_key (snd e)" by (simp add: keys_def is_digit_def)
  have d: "display (run example_math ?evs (init signed_in)) = ''123.''"
    by (simp add: keys_def init_def engine_defs)
  have r1: "reachable example_math signed_in ?w1"
    by (rule reachable_run[OF reachable.start])
      (simp add: keys_def is_digit_def operators_def)
  have r2: "reachable example_math signed_in ?w2"
    by (rule reachable_run[OF reachable.start])
      (simp add: keys_def scientific_functions_def)
  have r3: "reachable example_math signed_in ?w3"
    by (rule reachable_run[OF reachable.start])
      (simp add: keys_def is_digit_def)
  have d1: "display ?w1 = ''0.''"
    by (simp add: keys_def init_def inputNumber_def inputDecimal_def performOperation_def Let_def)
  have p: "parseFloat ''0'' = Fin 0" by (simp add: pf_simps)
  have d2: "display ?w2 = ''Infinity''"
    by (simp add: keys_def init_def sci_defs Let_def p js_div_def signed_inf_def)
  have p5: "parseFloat ''5'' = Fin 5" by (simp add: pf_simps)
  have sm5: "js_toString (Fin (- 5)) = ''-5''"
    by (simp add: ts_simps shortest_digits_found shortest_digits_next)
  have d3: "display ?w3 = ''-''"
    by (simp add: keys_def init_def inputNumber_def negate_def backspace_def p5 sm5
        del: js_toString.simps(5))
  have n1: "decimal_numeral ''0.''" by (simp add: decimal_numeral_def is_digit_def)
  have l2: "list_ex result_char ''Infinity''" by (simp add: result_char_def)
  have c2: "count_list ''Infinity'' (CHR ''.'') \<le> 1" by simp
  show ?thesis
    using display_is_written_number [of example_math signed_in ?w1 ?evs]
      display_is_written_number [of example_math signed_in ?w2 ?evs]
      display_is_written_number [of example_math signed_in ?w3 ?evs]
      k d r1 r2 r3 d1 d2 d3 n1 l2 c2
    by simp
qed

end
